theory Spec2Isabelle
  imports Main "HOL-Library.Word"
begin

section \<open>The literal recognizer of src/parse/literal.c\<close>

text \<open>
  Pointers into the source text are offsets into a buffer. A buffer is the list of the
  characters that come before its terminating NUL; the NUL itself sits at index
  \<open>length buf\<close>, and any index beyond it lies outside the object, where a read in C
  has no defined result. \<open>peek\<close> makes that explicit: \<open>None\<close> is such a read, and
  every function below returns \<open>None\<close> as soon as it performs one.

  The counters of the source are \<open>unsigned\<close>. They index the text, so they stay below
  \<open>2 ^ 32\<close> for every text shorter than 4 GiB; they are natural numbers here, and a
  theorem whose consumed length grows with the text carries that bound as the hypothesis
  \<open>addressable\<close>. \<open>uint64_t\<close> is \<open>64 word\<close>, and the \<open>unsigned\<close> values of digits,
  radixes, counts and kinds are \<open>32 word\<close>.

  A function returns its C result together with the diagnostics it reported, in order;
  an out parameter is an argument (the caller's value) and a component of the result.
\<close>

definition nul :: char where
  "nul = CHR 0x00"

definition peek :: "string \<Rightarrow> nat \<Rightarrow> char option" where
  "peek buf i =
     (if i < length buf then Some (buf ! i)
      else if i = length buf then Some nul
      else None)"

text \<open>A write through \<open>string->base\<close>: outside the allocated bytes it is undefined.\<close>

definition poke :: "string \<Rightarrow> nat \<Rightarrow> char \<Rightarrow> string option" where
  "poke buf i c = (if i < length buf then Some (buf[i := c]) else None)"

subsection \<open>The character classes of ctype.h, in the C locale\<close>

definition isdigit :: "char \<Rightarrow> bool" where
  "isdigit c \<longleftrightarrow> (48::nat) \<le> of_char c \<and> of_char c \<le> (57::nat)"

definition isupper :: "char \<Rightarrow> bool" where
  "isupper c \<longleftrightarrow> (65::nat) \<le> of_char c \<and> of_char c \<le> (90::nat)"

definition islower :: "char \<Rightarrow> bool" where
  "islower c \<longleftrightarrow> (97::nat) \<le> of_char c \<and> of_char c \<le> (122::nat)"

definition isalnum :: "char \<Rightarrow> bool" where
  "isalnum c \<longleftrightarrow> isdigit c \<or> isupper c \<or> islower c"

definition toupper :: "char \<Rightarrow> char" where
  "toupper c = (if islower c then char_of (of_char c - (32::nat)) else c)"

subsection \<open>Diagnostics and collaborators\<close>

text \<open>
  \<open>sparse_error\<close> and \<open>sparse_warning\<close> only report: the model records each call, with
  the offset of the pointer it was given and its message, in the order of the calls.
\<close>

datatype diag = Sparse_error nat string | Sparse_warning nat string

datatype parse_keyword_e = PARSE_KEYWORD_TRUE | PARSE_KEYWORD_FALSE

datatype parse_literal_e =
    PARSE_LITERAL_NUMBER
  | PARSE_LITERAL_BINARY
  | PARSE_LITERAL_OCTAL
  | PARSE_LITERAL_HEX
  | PARSE_LITERAL_HOLLERITH
  | PARSE_LITERAL_CHARACTER
  | PARSE_LITERAL_LOGICAL
  | PARSE_LITERAL_COMPLEX

text \<open>
  Modelled from the spec: \<open>str_ref_t\<close> and \<open>str_ref\<close> are declared outside literal.c. A
  slice is a non-owning pair of a start pointer and a length; \<open>str_ref\<close> builds it from
  its two arguments.
\<close>

record str_ref_t =
  ref_base :: nat
  ref_size :: nat

definition str_ref :: "nat \<Rightarrow> nat \<Rightarrow> str_ref_t" where
  "str_ref p n = \<lparr> ref_base = p, ref_size = n \<rparr>"

text \<open>The characters a view covers.\<close>

definition str_ref_text :: "string \<Rightarrow> str_ref_t \<Rightarrow> string" where
  "str_ref_text buf r = take (ref_size r) (drop (ref_base r) buf)"

text \<open>
  Modelled from the spec: \<open>string_t\<close> is declared outside literal.c. It is an owned
  buffer with its length; \<open>None\<close> is the empty state \<open>string_empty\<close> answers true to (a
  failed allocation), \<open>Some bytes\<close> an allocated buffer with its bytes.
\<close>

type_synonym string_t = "string option"

text \<open>
  Modelled from the spec: \<open>parse_literal_t\<close> and its tag \<open>parse_literal_e\<close> are declared
  in parse.h, which is not among the sources. The record has one field for each member
  literal.c names; the members share storage in C, which the record does not model.
\<close>

record parse_literal_t =
  type :: parse_literal_e
  kind :: "32 word"
  number :: str_ref_t
  left_number :: str_ref_t
  right_number :: str_ref_t
  string :: string_t
  logical :: bool

text \<open>
  What literal.c uses through an interface only: the current text and the text before
  expansion with the two queries of the sparse layer, the keyword matcher, the allocator
  (which fixes the bytes of a fresh buffer, or fails), and the indeterminate contents of
  an uninitialised local \<open>parse_literal_t\<close>.
\<close>

record env =
  source_text :: string
  parent_text :: string
  sparse_sequential :: "nat \<Rightarrow> nat \<Rightarrow> bool"
  sparse_parent_pointer :: "nat \<Rightarrow> nat option"
  parse_keyword :: "nat \<Rightarrow> parse_keyword_e \<Rightarrow> nat"
  string_create :: "nat \<Rightarrow> string_t"
  uninitialised :: parse_literal_t

subsection \<open>The base-digit engine\<close>

text \<open>\<open>is_base_digit\<close>: \<open>None\<close> is false, \<open>Some v\<close> is true with the digit value \<open>v\<close>.\<close>

definition is_base_digit :: "char \<Rightarrow> 32 word \<Rightarrow> 32 word option" where
  "is_base_digit c b =
     (if \<not> isalnum c then None
      else
        let v = (if isdigit c then word_of_int (int (of_char c) - 48)
                 else 10 + word_of_int (int (of_char (toupper c)) - 65))
        in if v \<ge> b then None else Some v)"

text \<open>
  The loop of lines 53 to 67. \<open>want\<close> says that \<open>value\<close> is not NULL. The loop ends with
  the index and the accumulated value, or leaves the function through the overflow
  branch.
\<close>

datatype digits_result = Overflow | Digits nat "64 word"

function digits_loop ::
  "string \<Rightarrow> nat \<Rightarrow> 32 word \<Rightarrow> bool \<Rightarrow> nat \<Rightarrow> 64 word \<Rightarrow> digits_result option" where
  "digits_loop buf ptr b want i v =
     (case peek buf (ptr + i) of
        None \<Rightarrow> None
      | Some c \<Rightarrow>
          (case is_base_digit c b of
             None \<Rightarrow> Some (Digits i v)
           | Some d \<Rightarrow>
               if want then
                 (let nv = (v * 10) + ucast d
                  in if nv div ucast b \<noteq> v \<or> nv mod ucast b \<noteq> ucast d
                     then Some Overflow
                     else digits_loop buf ptr b want (i + 1) nv)
               else digits_loop buf ptr b want (i + 1) v))"
  by pat_completeness auto
termination
  by (relation "measure (\<lambda>(buf, ptr, b, want, i, v). length buf + 1 - (ptr + i))")
     (auto simp: peek_def split: if_splits)

declare digits_loop.simps [simp del]

text \<open>
  \<open>parse_literal__base\<close> returns the consumed length, what it stored through \<open>value\<close>
  (\<open>None\<close>: nothing was stored), and the diagnostics it reported.
\<close>

definition parse_literal__base ::
  "env \<Rightarrow> nat \<Rightarrow> 32 word \<Rightarrow> bool \<Rightarrow> bool \<Rightarrow> ((nat \<times> 64 word option) \<times> diag list) option" where
  "parse_literal__base src ptr b quoted want =
     (case (if quoted then peek (source_text src) ptr else Some nul) of
        None \<Rightarrow> None
      | Some quote \<Rightarrow>
          let i = (if quoted then 1 else 0) in
          if quoted \<and> quote \<noteq> CHR 0x22 \<and> quote \<noteq> CHR 0x27 then Some ((0, None), [])
          else
            (case peek (source_text src) (ptr + i) of
               None \<Rightarrow> None
             | Some c \<Rightarrow>
                 if is_base_digit c b = None then
                   Some ((0, None),
                     if quoted
                     then [Sparse_error (ptr + i) ''Valid digit expected in BOZ literal'']
                     else [])
                 else
                   (case digits_loop (source_text src) ptr b want i 0 of
                      None \<Rightarrow> None
                    | Some Overflow \<Rightarrow>
                        Some ((0, None),
                          [Sparse_warning ptr ''Literal value exceeds 64-bit size''])
                    | Some (Digits j v) \<Rightarrow>
                        (case (if quoted then peek (source_text src) (ptr + j) else Some quote) of
                           None \<Rightarrow> None
                         | Some c' \<Rightarrow>
                             let k = (if quoted then j + 1 else j) in
                             if quoted \<and> c' \<noteq> quote then
                               Some ((0, None),
                                 [Sparse_error (ptr + k) ''Invalid character in BOZ literal''])
                             else
                               Some ((k, if want then Some v else None),
                                 if \<not> quoted \<and> \<not> sparse_sequential src ptr k
                                 then [Sparse_warning ptr ''Unexpected whitespace in literal'']
                                 else [])))))"

text \<open>
  \<open>parse_unsigned\<close>: the engine at radix 10, unquoted, then the narrowing to \<open>unsigned\<close>
  with its check. Reading \<open>u\<close> when the engine stored nothing would read an
  uninitialised variable.
\<close>

definition parse_unsigned ::
  "env \<Rightarrow> nat \<Rightarrow> ((nat \<times> 32 word option) \<times> diag list) option" where
  "parse_unsigned src ptr =
     (case parse_literal__base src ptr 10 False True of
        None \<Rightarrow> None
      | Some ((len, u), ds) \<Rightarrow>
          if len = 0 then Some ((0, None), ds)
          else
            (case u of
               None \<Rightarrow> None
             | Some u' \<Rightarrow>
                 let v = (ucast u' :: 32 word) in
                 if (ucast v :: 64 word) \<noteq> u' then Some ((0, None), ds)
                 else Some ((len, Some v), ds)))"

subsection \<open>Radix literals\<close>

type_synonym literal_result = "((nat \<times> parse_literal_t) \<times> diag list) option"

definition parse_literal__binary :: "env \<Rightarrow> nat \<Rightarrow> parse_literal_t \<Rightarrow> literal_result" where
  "parse_literal__binary src ptr literal =
     (case peek (source_text src) ptr of
        None \<Rightarrow> None
      | Some c \<Rightarrow>
          if toupper c \<noteq> CHR ''B'' then Some ((0, literal), [])
          else
            (case parse_literal__base src (ptr + 1) 2 True False of
               None \<Rightarrow> None
             | Some ((len, u), ds) \<Rightarrow>
                 if len = 0 then Some ((0, literal), ds)
                 else
                   Some ((len + 1,
                     literal\<lparr>number := str_ref (ptr + 1) len, type := PARSE_LITERAL_BINARY\<rparr>),
                     ds)))"

definition parse_literal__octal :: "env \<Rightarrow> nat \<Rightarrow> parse_literal_t \<Rightarrow> literal_result" where
  "parse_literal__octal src ptr literal =
     (case peek (source_text src) ptr of
        None \<Rightarrow> None
      | Some c \<Rightarrow>
          if toupper c \<noteq> CHR ''O'' then Some ((0, literal), [])
          else
            (case parse_literal__base src (ptr + 1) 8 True False of
               None \<Rightarrow> None
             | Some ((len, u), ds) \<Rightarrow>
                 if len = 0 then Some ((0, literal), ds)
                 else
                   Some ((len + 1,
                     literal\<lparr>number := str_ref (ptr + 1) len, type := PARSE_LITERAL_OCTAL\<rparr>),
                     ds)))"

definition parse_literal__hex :: "env \<Rightarrow> nat \<Rightarrow> parse_literal_t \<Rightarrow> literal_result" where
  "parse_literal__hex src ptr literal =
     (case peek (source_text src) ptr of
        None \<Rightarrow> None
      | Some c \<Rightarrow>
          if toupper c \<noteq> CHR ''X'' \<and> toupper c \<noteq> CHR ''Z'' then Some ((0, literal), [])
          else
            (case parse_literal__base src (ptr + 1) 16 True False of
               None \<Rightarrow> None
             | Some ((len, u), ds) \<Rightarrow>
                 if len = 0 then Some ((0, literal), ds)
                 else
                   Some ((len + 1,
                     literal\<lparr>number := str_ref (ptr + 1) len, type := PARSE_LITERAL_HEX\<rparr>),
                     ds)))"

subsection \<open>Hollerith literals\<close>

text \<open>
  The copying loop of lines 160 to 171: it ends, by its condition or by \<open>break\<close>, with
  the cursor index, the fill position and the buffer.
\<close>

function holl_copy ::
  "env \<Rightarrow> nat \<Rightarrow> nat \<Rightarrow> nat \<Rightarrow> nat \<Rightarrow> nat \<Rightarrow> nat \<Rightarrow> string \<Rightarrow> (nat \<times> nat \<times> string) option" where
  "holl_copy src ptr pptr holl_len j holl_pos i buf =
     (if holl_pos < holl_len then
        (case peek (parent_text src) (pptr + j) of
           None \<Rightarrow> None
         | Some pc \<Rightarrow>
             if pc = CHR 0x0D \<or> pc = CHR 0x0A \<or> pc = nul then Some (i, holl_pos, buf)
             else
               (case peek (source_text src) (ptr + i) of
                  None \<Rightarrow> None
                | Some c \<Rightarrow>
                    (case poke buf holl_pos pc of
                       None \<Rightarrow> None
                     | Some buf' \<Rightarrow>
                         holl_copy src ptr pptr holl_len (j + 1) (holl_pos + 1)
                           (if c = pc then i + 1 else i) buf')))
      else Some (i, holl_pos, buf))"
  by pat_completeness auto
termination
  by (relation "measure (\<lambda>(src, ptr, pptr, holl_len, j, holl_pos, i, buf). holl_len - holl_pos)")
     auto

declare holl_copy.simps [simp del]

text \<open>The padding loop of lines 173 to 177.\<close>

function holl_pad :: "nat \<Rightarrow> nat \<Rightarrow> string \<Rightarrow> string option" where
  "holl_pad holl_len holl_pos buf =
     (if holl_pos < holl_len then
        (case poke buf holl_pos (CHR '' '') of
           None \<Rightarrow> None
         | Some buf' \<Rightarrow> holl_pad holl_len (holl_pos + 1) buf')
      else Some buf)"
  by pat_completeness auto
termination
  by (relation "measure (\<lambda>(holl_len, holl_pos, buf). holl_len - holl_pos)") auto

declare holl_pad.simps [simp del]

text \<open>
  \<open>parse_hollerith\<close> takes the caller's \<open>*string\<close> and returns the consumed length with
  \<open>*string\<close> as the call leaves it.
\<close>

type_synonym string_result = "((nat \<times> string_t) \<times> diag list) option"

definition parse_hollerith :: "env \<Rightarrow> nat \<Rightarrow> string_t \<Rightarrow> string_result" where
  "parse_hollerith src ptr str =
     (case parse_unsigned src ptr of
        None \<Rightarrow> None
      | Some ((i, hl), ds) \<Rightarrow>
          if i = 0 then Some ((0, str), ds)
          else
            (case hl of
               None \<Rightarrow> None
             | Some holl_len \<Rightarrow>
                 (case peek (source_text src) (ptr + i) of
                    None \<Rightarrow> None
                  | Some c \<Rightarrow>
                      if toupper c \<noteq> CHR ''H'' then Some ((0, str), ds)
                      else
                        (case sparse_parent_pointer src (ptr + i) of
                           None \<Rightarrow> Some ((0, str), ds)
                         | Some pptr \<Rightarrow>
                             (case string_create src (unat holl_len) of
                                None \<Rightarrow> Some ((0, None), ds)
                              | Some buf \<Rightarrow>
                                  (case holl_copy src ptr pptr (unat holl_len) 1 0 (i + 1) buf of
                                     None \<Rightarrow> None
                                   | Some (i', holl_pos, buf') \<Rightarrow>
                                       (case holl_pad (unat holl_len) holl_pos buf' of
                                          None \<Rightarrow> None
                                        | Some buf'' \<Rightarrow> Some ((i', Some buf''), ds))))))))"

definition parse_literal__hollerith :: "env \<Rightarrow> nat \<Rightarrow> parse_literal_t \<Rightarrow> literal_result" where
  "parse_literal__hollerith src ptr literal =
     (case parse_hollerith src ptr (string literal) of
        None \<Rightarrow> None
      | Some ((len, s), ds) \<Rightarrow>
          if len = 0 then Some ((0, literal\<lparr>string := s\<rparr>), ds)
          else Some ((len, literal\<lparr>string := s, type := PARSE_LITERAL_HOLLERITH\<rparr>), ds))"

subsection \<open>Character literals\<close>

text \<open>The scan of the current text for the closing quote, lines 213 and 214.\<close>

function skip_to_quote :: "string \<Rightarrow> nat \<Rightarrow> char \<Rightarrow> nat \<Rightarrow> bool \<Rightarrow> nat option" where
  "skip_to_quote buf ptr quote i is_escaped =
     (case peek buf (ptr + i) of
        None \<Rightarrow> None
      | Some c \<Rightarrow>
          if c \<noteq> nul \<and> (c \<noteq> quote \<or> is_escaped)
          then skip_to_quote buf ptr quote (i + 1) (\<not> is_escaped \<and> c = CHR 0x5C)
          else Some i)"
  by pat_completeness auto
termination
  by (relation "measure (\<lambda>(buf, ptr, quote, i, is_escaped). length buf + 1 - (ptr + i))")
     (auto simp: peek_def split: if_splits)

declare skip_to_quote.simps [simp del]

text \<open>
  The first pass over the parent text, lines 223 to 241: it ends at the closing quote
  with the index and the decoded length, or leaves the function at a line terminator.
  It has no test for the terminating NUL.
\<close>

datatype scan_result = End_of_line | Scanned nat nat

function scan_parent ::
  "string \<Rightarrow> nat \<Rightarrow> char \<Rightarrow> nat \<Rightarrow> bool \<Rightarrow> nat \<Rightarrow> scan_result option" where
  "scan_parent pbuf pptr quote j is_escaped str_len =
     (case peek pbuf (pptr + j) of
        None \<Rightarrow> None
      | Some c \<Rightarrow>
          if c \<noteq> quote \<or> is_escaped then
            (if c = CHR 0x0D \<or> c = CHR 0x0A then Some End_of_line
             else if c = CHR 0x5C \<and> \<not> is_escaped
               then scan_parent pbuf pptr quote (j + 1) True str_len
               else scan_parent pbuf pptr quote (j + 1) False (str_len + 1))
          else Some (Scanned j str_len))"
  by pat_completeness auto
termination
  by (relation "measure (\<lambda>(pbuf, pptr, quote, j, is_escaped, str_len). length pbuf + 1 - (pptr + j))")
     (auto simp: peek_def split: if_splits)

declare scan_parent.simps [simp del]

text \<open>The \<open>switch\<close> of lines 255 to 293: \<open>None\<close> is its \<open>default\<close> branch.\<close>

definition escape :: "char \<Rightarrow> char option" where
  "escape c =
     (if c = CHR ''n'' then Some (CHR 0x0A)
      else if c = CHR ''r'' then Some (CHR 0x0D)
      else if c = CHR ''t'' then Some (CHR 0x09)
      else if c = CHR ''b'' then Some (CHR 0x08)
      else if c = CHR ''f'' then Some (CHR 0x0C)
      else if c = CHR ''v'' then Some (CHR 0x0B)
      else if c = CHR ''0'' then Some (CHR 0x00)
      else if c = CHR 0x27 then Some (CHR 0x27)
      else if c = CHR 0x22 then Some (CHR 0x22)
      else if c = CHR 0x5C then Some (CHR 0x5C)
      else None)"

text \<open>The second pass, lines 250 to 305.\<close>

function decode ::
  "string \<Rightarrow> nat \<Rightarrow> nat \<Rightarrow> nat \<Rightarrow> nat \<Rightarrow> bool \<Rightarrow> nat \<Rightarrow> string \<Rightarrow> diag list
     \<Rightarrow> (string \<times> diag list) option" where
  "decode pbuf pptr ptr str_end j is_escaped str_pos buf ds =
     (if j < str_end then
        (case peek pbuf (pptr + j) of
           None \<Rightarrow> None
         | Some c \<Rightarrow>
             if is_escaped then
               (case poke buf str_pos (case escape c of None \<Rightarrow> c | Some c' \<Rightarrow> c') of
                  None \<Rightarrow> None
                | Some buf' \<Rightarrow>
                    decode pbuf pptr ptr str_end (j + 1) False (str_pos + 1) buf'
                      (if escape c = None
                       then ds @ [Sparse_warning ptr ''Unknown escape sequence in string, ignoring'']
                       else ds))
             else if c = CHR 0x5C then
               decode pbuf pptr ptr str_end (j + 1) True str_pos buf ds
             else
               (case poke buf str_pos c of
                  None \<Rightarrow> None
                | Some buf' \<Rightarrow>
                    decode pbuf pptr ptr str_end (j + 1) False (str_pos + 1) buf' ds))
      else Some (buf, ds))"
  by pat_completeness auto
termination
  by (relation "measure (\<lambda>(pbuf, pptr, ptr, str_end, j, is_escaped, str_pos, buf, ds). str_end - j)")
     auto

declare decode.simps [simp del]

definition parse_character :: "env \<Rightarrow> nat \<Rightarrow> string_t \<Rightarrow> string_result" where
  "parse_character src ptr str =
     (case peek (source_text src) ptr of
        None \<Rightarrow> None
      | Some quote \<Rightarrow>
          if quote \<noteq> CHR 0x22 \<and> quote \<noteq> CHR 0x27 then Some ((0, str), [])
          else
            (case sparse_parent_pointer src ptr of
               None \<Rightarrow> Some ((0, str), [])
             | Some pptr \<Rightarrow>
                 (case skip_to_quote (source_text src) ptr quote 2 False of
                    None \<Rightarrow> None
                  | Some i \<Rightarrow>
                      (case peek (source_text src) (ptr + i) of
                         None \<Rightarrow> None
                       | Some c \<Rightarrow>
                           if c \<noteq> quote then
                             Some ((0, str), [Sparse_error ptr ''Unterminated string''])
                           else
                             (case scan_parent (parent_text src) pptr quote 1 False 0 of
                                None \<Rightarrow> None
                              | Some End_of_line \<Rightarrow>
                                  Some ((0, str),
                                    [Sparse_error ptr
                                       ''Unexpected end of line in character constant''])
                              | Some (Scanned str_end str_len) \<Rightarrow>
                                  (case string_create src str_len of
                                     None \<Rightarrow> Some ((0, None), [])
                                   | Some buf \<Rightarrow>
                                       (case decode (parent_text src) pptr ptr str_end 1 False 0
                                               buf [] of
                                          None \<Rightarrow> None
                                        | Some (buf', ds) \<Rightarrow>
                                            Some ((i + 1, Some buf'), ds))))))))"

definition parse_literal__character :: "env \<Rightarrow> nat \<Rightarrow> parse_literal_t \<Rightarrow> literal_result" where
  "parse_literal__character src ptr literal =
     (case parse_character src ptr (string literal) of
        None \<Rightarrow> None
      | Some ((len, s), ds) \<Rightarrow>
          if len = 0 then Some ((0, literal\<lparr>string := s\<rparr>), ds)
          else Some ((len, literal\<lparr>string := s, type := PARSE_LITERAL_CHARACTER\<rparr>), ds))"

subsection \<open>Logical literals\<close>

definition parse_literal__logical :: "env \<Rightarrow> nat \<Rightarrow> parse_literal_t \<Rightarrow> literal_result" where
  "parse_literal__logical src ptr literal =
     (case peek (source_text src) ptr of
        None \<Rightarrow> None
      | Some c \<Rightarrow>
          if c \<noteq> CHR ''.'' then Some ((0, literal), [])
          else
            let len = parse_keyword src (ptr + 1) PARSE_KEYWORD_TRUE;
                v = (len > 0);
                len' = (if len = 0 then parse_keyword src (ptr + 1) PARSE_KEYWORD_FALSE
                        else len)
            in
              if len' = 0 then Some ((0, literal), [])
              else
                (case peek (source_text src) (ptr + (1 + len')) of
                   None \<Rightarrow> None
                 | Some c' \<Rightarrow>
                     if c' \<noteq> CHR ''.'' then Some ((0, literal), [])
                     else
                       Some ((1 + len' + 1,
                         literal\<lparr>logical := v, type := PARSE_LITERAL_LOGICAL\<rparr>), [])))"

subsection \<open>Numeric literals\<close>

text \<open>The digit-skipping loops of lines 365, 373 and 396.\<close>

function skip_digits :: "string \<Rightarrow> nat \<Rightarrow> nat \<Rightarrow> nat option" where
  "skip_digits buf ptr i =
     (case peek buf (ptr + i) of
        None \<Rightarrow> None
      | Some c \<Rightarrow> if isdigit c then skip_digits buf ptr (i + 1) else Some i)"
  by pat_completeness auto
termination
  by (relation "measure (\<lambda>(buf, ptr, i). length buf + 1 - (ptr + i))")
     (auto simp: peek_def isdigit_def nul_def split: if_splits)

declare skip_digits.simps [simp del]

text \<open>
  Lines 357 to 374: sign, integer part, fraction. The result is \<open>had_int\<close>,
  \<open>had_fract\<close> and the index reached.
\<close>

definition number_mantissa :: "string \<Rightarrow> nat \<Rightarrow> (bool \<times> bool \<times> nat) option" where
  "number_mantissa buf ptr =
     (case peek buf ptr of
        None \<Rightarrow> None
      | Some c0 \<Rightarrow>
          let i0 = (if c0 = CHR ''-'' \<or> c0 = CHR ''+'' then 1 else 0) in
          (case peek buf (ptr + i0) of
             None \<Rightarrow> None
           | Some c1 \<Rightarrow>
               let had_int = isdigit c1 in
               (case skip_digits buf ptr i0 of
                  None \<Rightarrow> None
                | Some i1 \<Rightarrow>
                    (case peek buf (ptr + i1) of
                       None \<Rightarrow> None
                     | Some c2 \<Rightarrow>
                         if c2 = CHR ''.'' then
                           (case peek buf (ptr + (i1 + 1)) of
                              None \<Rightarrow> None
                            | Some c3 \<Rightarrow>
                                (case skip_digits buf ptr (i1 + 1) of
                                   None \<Rightarrow> None
                                 | Some i2 \<Rightarrow> Some (had_int, had_int \<or> isdigit c3, i2)))
                         else Some (had_int, False, i1)))))"

text \<open>
  Lines 376 to 403: the exponent, from the index \<open>i\<close> the mantissa ended at. The result
  is the kind \<open>k\<close> and the index after the block. The test of line 390 reads \<open>ptr[i]\<close>.
\<close>

definition number_exponent :: "string \<Rightarrow> nat \<Rightarrow> nat \<Rightarrow> (32 word \<times> nat) option" where
  "number_exponent buf ptr i =
     (case peek buf (ptr + i) of
        None \<Rightarrow> None
      | Some ci \<Rightarrow>
          let had_exponent = (toupper ci = CHR ''E'' \<or> toupper ci = CHR ''D'') in
          if had_exponent then
            (case peek buf (ptr + (i + 1)) of
               None \<Rightarrow> None
             | Some cj \<Rightarrow>
                 let j = (if cj = CHR ''-'' \<or> cj = CHR ''+'' then i + 1 + 1 else i + 1) in
                 if \<not> isdigit ci then Some (0, i)
                 else
                   (case skip_digits buf ptr j of
                      None \<Rightarrow> None
                    | Some j' \<Rightarrow> Some (if ci = CHR ''D'' then 8 else 0, j')))
          else Some (0, i))"

definition parse_literal__number :: "env \<Rightarrow> nat \<Rightarrow> parse_literal_t \<Rightarrow> literal_result" where
  "parse_literal__number src ptr literal =
     (case number_mantissa (source_text src) ptr of
        None \<Rightarrow> None
      | Some (had_int, had_fract, i0) \<Rightarrow>
          (case number_exponent (source_text src) ptr i0 of
             None \<Rightarrow> None
           | Some (ok, i1) \<Rightarrow>
               if \<not> had_fract \<and> \<not> had_int then Some ((0, literal), [])
               else
                 (case peek (source_text src) (ptr + i1) of
                    None \<Rightarrow> None
                  | Some c \<Rightarrow>
                      (case
                         (if c = CHR ''_'' then
                            (case parse_unsigned src (ptr + (i1 + 1)) of
                               None \<Rightarrow> None
                             | Some ((len, k'), ds) \<Rightarrow>
                                 if len = 0 then Some (None, ds)
                                 else
                                   (case k' of
                                      None \<Rightarrow> None
                                    | Some k \<Rightarrow>
                                        Some (Some (i1 + 1 + len, k, ok > 0 \<and> k \<noteq> ok), ds)))
                          else Some (Some (i1, ok, False), []))
                       of
                         None \<Rightarrow> None
                       | Some (None, ds) \<Rightarrow> Some ((0, literal), ds)
                       | Some (Some (i, k, kind_ambiguous), ds) \<Rightarrow>
                           Some ((i,
                             literal\<lparr>type := PARSE_LITERAL_NUMBER, kind := k,
                               number := str_ref ptr i\<rparr>),
                             ds
                             @ (if \<not> sparse_sequential src ptr i
                                then [Sparse_warning ptr ''Unexpected whitespace in literal number'']
                                else [])
                             @ (if kind_ambiguous
                                then [Sparse_warning ptr ''Kind is ambiguous, ignoring exponent kind'']
                                else []))))))"

subsection \<open>Complex literals\<close>

text \<open>The two local literals of lines 448 and 457 start uninitialised.\<close>

definition parse_literal__complex :: "env \<Rightarrow> nat \<Rightarrow> parse_literal_t \<Rightarrow> literal_result" where
  "parse_literal__complex src ptr literal =
     (case peek (source_text src) ptr of
        None \<Rightarrow> None
      | Some c \<Rightarrow>
          if c \<noteq> CHR ''('' then Some ((0, literal), [])
          else
            (case parse_literal__number src (ptr + 1) (uninitialised src) of
               None \<Rightarrow> None
             | Some ((len, left_number_literal), ds) \<Rightarrow>
                 if len = 0 then Some ((0, literal), ds)
                 else
                   (case peek (source_text src) (ptr + (1 + len)) of
                      None \<Rightarrow> None
                    | Some c' \<Rightarrow>
                        if c' \<noteq> CHR '','' then Some ((0, literal), ds)
                        else
                          (case parse_literal__number src (ptr + (1 + len + 1))
                                  (uninitialised src) of
                             None \<Rightarrow> None
                           | Some ((len', right_number_literal), ds') \<Rightarrow>
                               if len' = 0 then Some ((0, literal), ds @ ds')
                               else
                                 (case peek (source_text src) (ptr + (1 + len + 1 + len')) of
                                    None \<Rightarrow> None
                                  | Some c'' \<Rightarrow>
                                      if c'' \<noteq> CHR '')'' then Some ((0, literal), ds @ ds')
                                      else
                                        Some ((1 + len + 1 + len' + 1,
                                          literal\<lparr>type := PARSE_LITERAL_COMPLEX,
                                            left_number := number left_number_literal,
                                            right_number := number right_number_literal\<rparr>),
                                          ds @ ds'))))))"

subsection \<open>The dispatcher\<close>

text \<open>One line \<open>if (len == 0) len = f(src, ptr, &l);\<close> of lines 482 to 489.\<close>

definition attempt ::
  "(env \<Rightarrow> nat \<Rightarrow> parse_literal_t \<Rightarrow> literal_result) \<Rightarrow> env \<Rightarrow> nat \<Rightarrow> literal_result
     \<Rightarrow> literal_result" where
  "attempt f src ptr r =
     (case r of
        None \<Rightarrow> None
      | Some ((len, l), ds) \<Rightarrow>
          if len = 0 then
            (case f src ptr l of
               None \<Rightarrow> None
             | Some ((len', l'), ds') \<Rightarrow> Some ((len', l'), ds @ ds'))
          else Some ((len, l), ds))"

definition parse_literal :: "env \<Rightarrow> nat \<Rightarrow> parse_literal_t \<Rightarrow> literal_result" where
  "parse_literal src ptr literal =
     (let l = (uninitialised src)\<lparr>kind := 0\<rparr>;
          r0 = Some ((0, l), []);
          r1 = attempt parse_literal__character src ptr r0;
          r2 = attempt parse_literal__hollerith src ptr r1;
          r3 = attempt parse_literal__complex src ptr r2;
          r4 = attempt parse_literal__binary src ptr r3;
          r5 = attempt parse_literal__octal src ptr r4;
          r6 = attempt parse_literal__hex src ptr r5;
          r7 = attempt parse_literal__logical src ptr r6;
          r8 = attempt parse_literal__number src ptr r7
      in
        (case r8 of
           None \<Rightarrow> None
         | Some ((len, l'), ds) \<Rightarrow>
             if len = 0 then Some ((0, literal), ds)
             else Some ((len, l'), ds)))"

subsection \<open>Notions the statements use\<close>

text \<open>The value of a decimal digit and of a run of decimal digits, as a natural number.\<close>

definition digit_value :: "char \<Rightarrow> nat" where
  "digit_value c = of_char c - 48"

definition decimal :: "string \<Rightarrow> nat" where
  "decimal ds = foldl (\<lambda>a c. a * 10 + digit_value c) 0 ds"

text \<open>A literal value to start from.\<close>

definition blank :: parse_literal_t where
  "blank = \<lparr> type = PARSE_LITERAL_LOGICAL, kind = 0, number = str_ref 0 0,
     left_number = str_ref 0 0, right_number = str_ref 0 0, string = None,
     logical = False \<rparr>"

text \<open>
  A source that went through no expansion, for evaluating the recognizers at a given
  text: the parent text is the text itself and every position is its own parent, no
  whitespace is reported, no keyword matches, allocation succeeds with zeroed bytes.
\<close>

definition plain :: "string \<Rightarrow> env" where
  "plain t = \<lparr> source_text = t, parent_text = t,
     sparse_sequential = (\<lambda>ptr n. True),
     sparse_parent_pointer = (\<lambda>ptr. Some ptr),
     parse_keyword = (\<lambda>ptr k. 0),
     string_create = (\<lambda>n. Some (replicate n nul)),
     uninitialised = blank \<rparr>"

text \<open>
  The bound under which the \<open>unsigned\<close> counters of the source cannot wrap: both texts,
  with the few positions the recognizers add to an index, stay below \<open>2 ^ 32\<close>.
\<close>

definition addressable :: "env \<Rightarrow> bool" where
  "addressable src \<longleftrightarrow>
     length (source_text src) + 2 < 2 ^ 32 \<and> length (parent_text src) + 2 < 2 ^ 32"

text \<open>
  The three radix recognizers by radix: the recognizer, its prefix letters, its tag, the
  runs of valid digits, and the value of a digit run read in that radix.
\<close>

definition radix_recognizer ::
  "32 word \<Rightarrow> env \<Rightarrow> nat \<Rightarrow> parse_literal_t \<Rightarrow> literal_result" where
  "radix_recognizer R =
     (if R = 2 then parse_literal__binary
      else if R = 8 then parse_literal__octal
      else parse_literal__hex)"

definition radix_letter :: "32 word \<Rightarrow> char \<Rightarrow> bool" where
  "radix_letter R p =
     (if R = 2 then toupper p = CHR ''B''
      else if R = 8 then toupper p = CHR ''O''
      else toupper p = CHR ''X'' \<or> toupper p = CHR ''Z'')"

definition radix_type :: "32 word \<Rightarrow> parse_literal_e" where
  "radix_type R =
     (if R = 2 then PARSE_LITERAL_BINARY
      else if R = 8 then PARSE_LITERAL_OCTAL
      else PARSE_LITERAL_HEX)"

definition valid_digits :: "32 word \<Rightarrow> string \<Rightarrow> bool" where
  "valid_digits R s = list_all (\<lambda>c. is_base_digit c R \<noteq> None) s"

definition radix_value :: "32 word \<Rightarrow> string \<Rightarrow> nat" where
  "radix_value R s =
     foldl (\<lambda>a c. a * unat R + (case is_base_digit c R of None \<Rightarrow> 0 | Some d \<Rightarrow> unat d)) 0 s"

text \<open>What ends the copying of Hollerith content: a line terminator or the end of the buffer.\<close>

definition line_end :: "char \<Rightarrow> bool" where
  "line_end c \<longleftrightarrow> c = CHR 0x0D \<or> c = CHR 0x0A \<or> c = nul"

text \<open>
  The shape of a complex literal at \<open>ptr\<close>: an opening parenthesis, a numeric literal, a
  comma, a numeric literal, a closing parenthesis. A structural mismatch is a text
  without this shape.
\<close>

definition number_length :: "env \<Rightarrow> nat \<Rightarrow> nat option" where
  "number_length src ptr =
     map_option (\<lambda>r. fst (fst r)) (parse_literal__number src ptr (uninitialised src))"

definition complex_shape :: "env \<Rightarrow> nat \<Rightarrow> bool" where
  "complex_shape src ptr \<longleftrightarrow>
     peek (source_text src) ptr = Some (CHR ''('')
     \<and> (case number_length src (ptr + 1) of
          None \<Rightarrow> False
        | Some n \<Rightarrow>
            0 < n \<and> peek (source_text src) (ptr + 1 + n) = Some (CHR '','')
            \<and> (case number_length src (ptr + 1 + n + 1) of
                 None \<Rightarrow> False
               | Some m \<Rightarrow>
                   0 < m \<and> peek (source_text src) (ptr + 1 + n + 1 + m) = Some (CHR '')'')))"

text \<open>
  The sub-recognizers in the order of the dispatcher, and the inputs on which every one
  of them returns 0, whatever literal it is handed.
\<close>

definition recognizers :: "(env \<Rightarrow> nat \<Rightarrow> parse_literal_t \<Rightarrow> literal_result) list" where
  "recognizers =
     [parse_literal__character, parse_literal__hollerith, parse_literal__complex,
      parse_literal__binary, parse_literal__octal, parse_literal__hex,
      parse_literal__logical, parse_literal__number]"

definition returns_zero ::
  "(env \<Rightarrow> nat \<Rightarrow> parse_literal_t \<Rightarrow> literal_result) \<Rightarrow> env \<Rightarrow> nat \<Rightarrow> bool" where
  "returns_zero f src ptr \<longleftrightarrow> (\<forall>l. \<exists>l' ds. f src ptr l = Some ((0, l'), ds))"

definition all_fail :: "env \<Rightarrow> nat \<Rightarrow> bool" where
  "all_fail src ptr \<longleftrightarrow> list_all (\<lambda>f. returns_zero f src ptr) recognizers"

section \<open>Reading the text\<close>

lemma peek_append: "peek (pre @ xs) (length pre + j) = peek xs j"
  by (simp add: peek_def nth_append)

lemmas ctype_defs = isdigit_def isupper_def islower_def isalnum_def toupper_def nul_def

lemma peek_append0: "peek (pre @ xs) (length pre) = peek xs 0"
  using peek_append [of pre xs 0] by simp

lemma peek_append_ge: "length pre \<le> n \<Longrightarrow> peek (pre @ xs) n = peek xs (n - length pre)"
  using peek_append [of pre xs "n - length pre"] by simp

lemma peek_lit:
  "peek (c # cs) 0 = Some c" "peek (c # cs) (Suc n) = peek cs n"
  "peek (c # cs) (numeral k) = peek cs (pred_numeral k)"
  by (simp_all add: peek_def numeral_eq_Suc)

lemmas peek_at = peek_append_ge peek_lit

section \<open>Decimal accumulation detects every overflow\<close>

lemma digit_value_less: "isdigit c \<Longrightarrow> digit_value c < 10"
  by (auto simp: isdigit_def digit_value_def)

lemma is_base_digit_decimal:
  assumes "isdigit c"
  shows "is_base_digit c 10 = Some (of_nat (digit_value c))"
proof -
  have le: "(48::nat) \<le> of_char c" and "of_char c \<le> (57::nat)"
    using assms by (auto simp: isdigit_def)
  then have lt: "digit_value c < 10"
    by (simp add: digit_value_def)
  have "int (of_char c) - 48 = int (digit_value c)"
    using le by (simp add: digit_value_def)
  then have w: "(word_of_int (int (of_char c) - 48) :: 32 word) = of_nat (digit_value c)"
    by simp
  have "unat (of_nat (digit_value c) :: 32 word) = digit_value c"
    using lt by (simp add: unat_of_nat)
  then have "\<not> (10 :: 32 word) \<le> of_nat (digit_value c)"
    using lt by (simp add: word_le_nat_alt)
  then show ?thesis
    using assms w by (simp add: is_base_digit_def isalnum_def Let_def)
qed

lemma overflow_check_exact:
  fixes v :: "64 word"
  assumes "d < 10"
  shows "((v * 10 + of_nat d) div 10 = v \<and> (v * 10 + of_nat d) mod 10 = of_nat d)
         \<longleftrightarrow> unat v * 10 + d < 2 ^ 64"
proof -
  let ?nv = "v * 10 + of_nat d"
  have ud: "unat (of_nat d :: 64 word) = d"
    using assms by (simp add: unat_of_nat)
  have un: "unat ?nv = (unat v * 10 + d) mod 2 ^ 64"
    by (simp add: unat_word_ariths ud mod_simps)
  have udiv: "unat (?nv div 10) = unat ?nv div 10"
    by (simp add: unat_div)
  have umod: "unat (?nv mod 10) = unat ?nv mod 10"
    by (simp add: unat_mod)
  show ?thesis
  proof
    assume a: "?nv div 10 = v \<and> ?nv mod 10 = of_nat d"
    then have "unat ?nv div 10 = unat v" and "unat ?nv mod 10 = d"
      using udiv umod ud by auto
    then have "unat ?nv = unat v * 10 + d"
      by presburger
    moreover have "unat ?nv < 2 ^ 64"
      using unsigned_less [of ?nv, where 'a = nat] by simp
    ultimately show "unat v * 10 + d < 2 ^ 64" by simp
  next
    assume "unat v * 10 + d < 2 ^ 64"
    then have e: "unat ?nv = unat v * 10 + d"
      using un by simp
    have "unat (?nv div 10) = unat v"
      using udiv e assms by simp
    moreover have "unat (?nv mod 10) = unat (of_nat d :: 64 word)"
      using umod e ud assms by simp
    ultimately show "?nv div 10 = v \<and> ?nv mod 10 = of_nat d"
      by (simp add: word_unat_eq_iff)
  qed
qed


lemma ucast_digit: "n < 10 \<Longrightarrow> (ucast (of_nat n :: 32 word) :: 64 word) = of_nat n"
  by (simp add: word_unat_eq_iff unsigned_ucast_eq unat_of_nat take_bit_eq_mod)

lemma digits_loop_overflow:
  "list_all isdigit ds \<Longrightarrow> buf = pre @ ds @ rest \<Longrightarrow> ptr + i = length pre
   \<Longrightarrow> 2 ^ 64 \<le> foldl (\<lambda>a c. a * 10 + digit_value c) (unat v) ds
   \<Longrightarrow> digits_loop buf ptr 10 True i v = Some Overflow"
proof (induction ds arbitrary: pre i v)
  case Nil
  have "unat v < 2 ^ 64"
    using unsigned_less [of v, where 'a = nat] by simp
  with Nil show ?case by simp
next
  case (Cons c cs)
  let ?d = "digit_value c"
  let ?nv = "v * 10 + of_nat ?d"
  have dig: "isdigit c" and rest: "list_all isdigit cs"
    using Cons.prems(1) by simp_all
  have d10: "?d < 10"
    using dig by (rule digit_value_less)
  have pk: "peek buf (ptr + i) = Some c"
    using Cons.prems(2,3) by (simp add: peek_def)
  have ibd: "is_base_digit c 10 = Some (of_nat ?d)"
    using dig by (rule is_base_digit_decimal)
  show ?case
  proof (cases "unat v * 10 + ?d < 2 ^ 64")
    case False
    then have "\<not> (?nv div 10 = v \<and> ?nv mod 10 = of_nat ?d)"
      using overflow_check_exact [OF d10, of v] by simp
    then show ?thesis
      using pk ibd d10 by (subst digits_loop.simps) (auto simp: ucast_digit Let_def)
  next
    case True
    then have ok: "?nv div 10 = v \<and> ?nv mod 10 = of_nat ?d"
      using overflow_check_exact [OF d10, of v] by simp
    have e: "unat ?nv = unat v * 10 + ?d"
      using True d10 by (simp add: unat_word_ariths unat_of_nat mod_simps)
    have "digits_loop buf ptr 10 True (i + 1) ?nv = Some Overflow"
    proof (rule Cons.IH [OF rest])
      show "buf = (pre @ [c]) @ cs @ rest"
        using Cons.prems(2) by simp
      show "ptr + (i + 1) = length (pre @ [c])"
        using Cons.prems(3) by simp
      show "2 ^ 64 \<le> foldl (\<lambda>a c. a * 10 + digit_value c) (unat ?nv) cs"
        using Cons.prems(4) e by simp
    qed
    then show ?thesis
      using pk ibd d10 ok by (subst digits_loop.simps) (simp add: ucast_digit Let_def)
  qed
qed

text \<open>
  C6. A run of decimal digits whose value exceeds \<open>2 ^ 64 - 1\<close> makes the base-digit
  engine, asked for the value at radix 10, report the warning
  "Literal value exceeds 64-bit size" and return 0 with nothing stored; \<open>parse_unsigned\<close>
  returns 0 as well. No wrapped or truncated value comes back, whatever follows the run.
\<close>

theorem decimal_overflow_rejected:
  assumes "source_text src = pre @ ds @ rest" and "ptr = length pre"
    and "list_all isdigit ds" and "decimal ds > 2 ^ 64 - 1"
  shows "parse_literal__base src ptr 10 False True
           = Some ((0, None), [Sparse_warning ptr ''Literal value exceeds 64-bit size''])
       \<and> parse_unsigned src ptr
           = Some ((0, None), [Sparse_warning ptr ''Literal value exceeds 64-bit size''])"
proof -
  obtain c cs where ds: "ds = c # cs"
    using assms(4) by (cases ds) (simp_all add: decimal_def)
  have dig: "isdigit c"
    using assms(3) ds by simp
  have pk: "peek (source_text src) (ptr + 0) = Some c"
    using assms(1,2) ds by (simp add: peek_def nth_append)
  have "2 ^ 64 \<le> foldl (\<lambda>a c. a * 10 + digit_value c) (unat (0 :: 64 word)) ds"
    using assms(4) by (simp add: decimal_def)
  then have loop: "digits_loop (source_text src) ptr 10 True 0 0 = Some Overflow"
    using digits_loop_overflow [OF assms(3) assms(1), of ptr 0 0] assms(2) by simp
  have b: "parse_literal__base src ptr 10 False True
           = Some ((0, None), [Sparse_warning ptr ''Literal value exceeds 64-bit size''])"
    using pk loop dig by (simp add: parse_literal__base_def is_base_digit_decimal)
  then show ?thesis
    by (simp add: parse_unsigned_def)
qed

theorem decimal_overflow_rejected_witness:
  "list_all isdigit ''18446744073709551616''
   \<and> decimal ''18446744073709551616'' > 2 ^ 64 - 1
   \<and> parse_literal__base (plain ''18446744073709551616'') 0 10 False True
       = Some ((0, None), [Sparse_warning 0 ''Literal value exceeds 64-bit size''])
   \<and> parse_unsigned (plain ''18446744073709551616'') 0
       = Some ((0, None), [Sparse_warning 0 ''Literal value exceeds 64-bit size''])"
proof -
  have h1: "source_text (plain ''18446744073709551616'') = [] @ ''18446744073709551616'' @ []"
    by (simp add: plain_def)
  have h2: "(0::nat) = length ([] :: string)"
    by simp
  have h3: "list_all isdigit ''18446744073709551616''"
    by (simp add: isdigit_def)
  have h4: "decimal ''18446744073709551616'' > 2 ^ 64 - 1"
    by (simp add: decimal_def digit_value_def)
  show ?thesis
    using decimal_overflow_rejected [OF h1 h2 h3 h4] h3 h4 by simp
qed


section \<open>Quoted digit runs\<close>

lemma quote_not_digit:
  "q = CHR 0x22 \<or> q = CHR 0x27 \<Longrightarrow> is_base_digit q b = None"
  by (auto simp: is_base_digit_def ctype_defs)

lemma digits_loop_run:
  "\<forall>c\<in>set s. is_base_digit c b \<noteq> None \<Longrightarrow> buf = pre @ s @ q # rest
   \<Longrightarrow> is_base_digit q b = None \<Longrightarrow> ptr + i = length pre
   \<Longrightarrow> digits_loop buf ptr b False i v = Some (Digits (i + length s) v)"
proof (induction s arbitrary: pre i)
  case Nil
  then have "peek buf (ptr + i) = Some q"
    by (simp add: peek_def)
  then show ?case
    using Nil.prems(3) by (subst digits_loop.simps) simp
next
  case (Cons c cs)
  have pk: "peek buf (ptr + i) = Some c"
    using Cons.prems(2,4) by (simp add: peek_def)
  obtain d where d: "is_base_digit c b = Some d"
    using Cons.prems(1) by auto
  have "digits_loop buf ptr b False (i + 1) v = Some (Digits (i + 1 + length cs) v)"
  proof (rule Cons.IH)
    show "\<forall>c\<in>set cs. is_base_digit c b \<noteq> None"
      using Cons.prems(1) by simp
    show "buf = (pre @ [c]) @ cs @ q # rest"
      using Cons.prems(2) by simp
    show "is_base_digit q b = None"
      by (rule Cons.prems(3))
    show "ptr + (i + 1) = length (pre @ [c])"
      using Cons.prems(4) by simp
  qed
  then show ?case
    using pk d by (subst digits_loop.simps) simp
qed

lemma base_quoted_run:
  assumes "source_text src = pre @ q # s @ q # rest" and "ptr = length pre"
    and "q = CHR 0x22 \<or> q = CHR 0x27" and "s \<noteq> []"
    and "\<forall>c\<in>set s. is_base_digit c b \<noteq> None"
  shows "parse_literal__base src ptr b True False = Some ((length s + 2, None), [])"
proof -
  obtain c cs where s: "s = c # cs"
    using assms(4) by (cases s) auto
  have p0: "peek (source_text src) ptr = Some q"
    using assms(1,2) by (simp add: peek_def)
  have p1: "peek (source_text src) (ptr + 1) = Some c"
    using assms(1,2) s by (simp add: peek_def nth_append)
  have c: "is_base_digit c b \<noteq> None"
    using assms(5) s by simp
  have nq: "is_base_digit q b = None"
    using assms(3) by (rule quote_not_digit)
  have loop: "digits_loop (source_text src) ptr b False 1 0 = Some (Digits (1 + length s) 0)"
  proof (rule digits_loop_run [OF assms(5) _ nq])
    show "source_text src = (pre @ [q]) @ s @ q # rest"
      using assms(1) by simp
    show "ptr + 1 = length (pre @ [q])"
      using assms(2) by simp
  qed
  have p2: "peek (source_text src) (ptr + (1 + length s)) = Some q"
    using assms(1,2) by (simp add: peek_def nth_append)
  show ?thesis
    using p0 p1 c loop p2 assms(3)
    by (auto simp: parse_literal__base_def Let_def)
qed

lemma radix_accepts:
  assumes "R = 2 \<or> R = 8 \<or> R = 16" and "radix_letter R p"
    and "q = CHR 0x22 \<or> q = CHR 0x27" and "s \<noteq> []"
    and "\<forall>c\<in>set s. is_base_digit c R \<noteq> None"
    and "source_text src = pre @ p # q # s @ q # rest" and "ptr = length pre"
  shows "radix_recognizer R src ptr literal
         = Some ((length s + 3,
             literal\<lparr>number := str_ref (ptr + 1) (length s + 2), type := radix_type R\<rparr>), [])"
proof -
  have p0: "peek (source_text src) ptr = Some p"
    using assms(6,7) by (simp add: peek_def)
  have "source_text src = (pre @ [p]) @ q # s @ q # rest" and "ptr + 1 = length (pre @ [p])"
    using assms(6,7) by simp_all
  then have b: "parse_literal__base src (ptr + 1) R True False = Some ((length s + 2, None), [])"
    using assms(3,4,5) by (rule base_quoted_run)
  show ?thesis
    using assms(1,2) p0 b
    by (auto simp: radix_recognizer_def radix_letter_def radix_type_def
        parse_literal__binary_def parse_literal__octal_def parse_literal__hex_def)
qed

section \<open>Radix literals: length and slice\<close>

text \<open>
  C3, amended. For a radix in 2, 8, 16, a prefix letter of that radix, a quote, a
  non-empty run \<open>s\<close> of valid digits and the same quote again, the recognizer succeeds
  with no diagnostic, consumes \<open>length s + 3\<close> characters and tags the result with the
  radix. The slice it stores starts at the opening quote and has \<open>length s + 2\<close>
  characters: only the prefix letter is left out, both quotes are part of the slice.
\<close>

theorem radix_literal_accepted:
  assumes "R = 2 \<or> R = 8 \<or> R = 16" and "radix_letter R p"
    and "q = CHR 0x22 \<or> q = CHR 0x27" and "s \<noteq> []" and "valid_digits R s"
    and "source_text src = pre @ p # q # s @ q # rest" and "ptr = length pre"
    and "addressable src"
  shows "radix_recognizer R src ptr literal
           = Some ((length s + 3,
               literal\<lparr>number := str_ref (ptr + 1) (length s + 2), type := radix_type R\<rparr>), [])
       \<and> str_ref_text (source_text src) (str_ref (ptr + 1) (length s + 2)) = q # s @ [q]"
proof -
  have v: "\<forall>c\<in>set s. is_base_digit c R \<noteq> None"
    using assms(5) by (simp add: valid_digits_def list_all_iff)
  have "str_ref_text (source_text src) (str_ref (ptr + 1) (length s + 2)) = q # s @ [q]"
    using assms(6,7) by (simp add: str_ref_text_def str_ref_def)
  then show ?thesis
    using radix_accepts [OF assms(1,2,3,4) v assms(6,7)] by simp
qed

theorem radix_literal_accepted_witness:
  "radix_letter 16 (CHR ''z'') \<and> valid_digits 16 ''1aF''
   \<and> addressable (plain (''K = '' @ CHR ''z'' # CHR 0x22 # ''1aF'' @ CHR 0x22 # '' + 1''))
   \<and> radix_recognizer 16 (plain (''K = '' @ CHR ''z'' # CHR 0x22 # ''1aF'' @ CHR 0x22 # '' + 1'')) 4 blank
       = Some ((6, blank\<lparr>number := str_ref 5 5, type := PARSE_LITERAL_HEX\<rparr>), [])
   \<and> str_ref_text (''K = '' @ CHR ''z'' # CHR 0x22 # ''1aF'' @ CHR 0x22 # '' + 1'') (str_ref 5 5)
       = CHR 0x22 # ''1aF'' @ [CHR 0x22]"
proof -
  let ?t = "''K = '' @ CHR ''z'' # CHR 0x22 # ''1aF'' @ CHR 0x22 # '' + 1''"
  have h1: "(16 :: 32 word) = 2 \<or> (16 :: 32 word) = 8 \<or> (16 :: 32 word) = 16"
    by simp
  have h2: "radix_letter 16 (CHR ''z'')"
    by (simp add: radix_letter_def ctype_defs char_of_eq_iff take_bit_eq_mod)
  have h3: "CHR 0x22 = CHR 0x22 \<or> CHR 0x22 = CHR 0x27"
    by simp
  have h4: "''1aF'' \<noteq> []"
    by simp
  have h5: "valid_digits 16 ''1aF''"
    by (simp add: valid_digits_def is_base_digit_def ctype_defs word_le_nat_alt)
  have h6: "source_text (plain ?t) = ''K = '' @ CHR ''z'' # CHR 0x22 # ''1aF'' @ CHR 0x22 # '' + 1''"
    by (simp add: plain_def)
  have h7: "(4::nat) = length ''K = ''"
    by simp
  have h8: "addressable (plain ?t)"
    by (simp add: addressable_def plain_def)
  have r: "radix_type 16 = PARSE_LITERAL_HEX"
    by (simp add: radix_type_def)
  have n: "length ''1aF'' + 3 = (6::nat)" "(4::nat) + 1 = 5" "length ''1aF'' + 2 = (5::nat)"
    by simp_all
  note w = radix_literal_accepted [OF h1 h2 h3 h4 h5 h6 h7 h8, of blank]
  show ?thesis
    using w [unfolded n r h6] h2 h5 h8 by simp
qed

text \<open>
  C3 as stated fails on the slice: for \<open>B'01'\<close> the stored slice is the four characters
  \<open>'01'\<close>, quotes included, not the digit text \<open>01\<close>.
\<close>

theorem radix_slice_counterexample:
  "radix_recognizer 2 (plain [CHR ''B'', CHR 0x27, CHR ''0'', CHR ''1'', CHR 0x27]) 0 blank
     = Some ((5, blank\<lparr>number := str_ref 1 4, type := PARSE_LITERAL_BINARY\<rparr>), [])
   \<and> str_ref_text [CHR ''B'', CHR 0x27, CHR ''0'', CHR ''1'', CHR 0x27] (str_ref 1 4)
       = [CHR 0x27, CHR ''0'', CHR ''1'', CHR 0x27]
   \<and> str_ref_text [CHR ''B'', CHR 0x27, CHR ''0'', CHR ''1'', CHR 0x27] (str_ref 1 4) \<noteq> ''01''"
  by (simp add: radix_recognizer_def parse_literal__binary_def parse_literal__base_def
      digits_loop.simps is_base_digit_def peek_def ctype_defs plain_def str_ref_text_def
      str_ref_def Let_def word_le_nat_alt)

section \<open>Radix literals: no overflow test\<close>

text \<open>Without a destination for the value the loop never takes the overflow branch.\<close>

lemma no_overflow_without_value: "digits_loop buf ptr b False i v \<noteq> Some Overflow"
  by (induction buf ptr b "False" i v rule: digits_loop.induct)
     (subst digits_loop.simps, auto split: option.splits)

text \<open>
  C5, amended. The radix recognizers call the engine without a destination for the
  value, and the engine tests for overflow only when it has one. So a radix literal
  whose quoted digit run has a value above \<open>2 ^ 64 - 1\<close> is accepted like any other:
  the engine returns the length of the quoted run with no diagnostic, and the
  recognizer succeeds.
\<close>

theorem radix_overflow_accepted:
  assumes "R = 2 \<or> R = 8 \<or> R = 16" and "radix_letter R p"
    and "q = CHR 0x22 \<or> q = CHR 0x27" and "valid_digits R s"
    and "radix_value R s > 2 ^ 64 - 1"
    and "source_text src = pre @ p # q # s @ q # rest" and "ptr = length pre"
    and "addressable src"
  shows "parse_literal__base src (ptr + 1) R True False = Some ((length s + 2, None), [])
       \<and> radix_recognizer R src ptr literal
           = Some ((length s + 3,
               literal\<lparr>number := str_ref (ptr + 1) (length s + 2), type := radix_type R\<rparr>), [])"
proof -
  have v: "\<forall>c\<in>set s. is_base_digit c R \<noteq> None"
    using assms(4) by (simp add: valid_digits_def list_all_iff)
  have ne: "s \<noteq> []"
    using assms(5) by (auto simp: radix_value_def)
  have "source_text src = (pre @ [p]) @ q # s @ q # rest" and "ptr + 1 = length (pre @ [p])"
    using assms(6,7) by simp_all
  then have "parse_literal__base src (ptr + 1) R True False = Some ((length s + 2, None), [])"
    using assms(3) ne v by (rule base_quoted_run)
  then show ?thesis
    using radix_accepts [OF assms(1,2,3) ne v assms(6,7)] by simp
qed

theorem radix_overflow_accepted_witness:
  "radix_letter 8 (CHR ''O'') \<and> valid_digits 8 ''2000000000000000000000''
   \<and> radix_value 8 ''2000000000000000000000'' > 2 ^ 64 - 1
   \<and> addressable (plain (CHR ''O'' # CHR 0x27 # ''2000000000000000000000'' @ [CHR 0x27]))
   \<and> radix_recognizer 8 (plain (CHR ''O'' # CHR 0x27 # ''2000000000000000000000'' @ [CHR 0x27]))
         0 blank
       = Some ((25, blank\<lparr>number := str_ref 1 24, type := PARSE_LITERAL_OCTAL\<rparr>), [])"
proof -
  let ?s = "''2000000000000000000000''"
  let ?t = "CHR ''O'' # CHR 0x27 # ?s @ [CHR 0x27]"
  have h1: "(8 :: 32 word) = 2 \<or> (8 :: 32 word) = 8 \<or> (8 :: 32 word) = 16"
    by simp
  have h2: "radix_letter 8 (CHR ''O'')"
    by (simp add: radix_letter_def ctype_defs)
  have h3: "CHR 0x27 = CHR 0x22 \<or> CHR 0x27 = CHR 0x27"
    by simp
  have d: "is_base_digit (CHR ''2'') 8 = Some 2" "is_base_digit (CHR ''0'') 8 = Some 0"
    by (simp_all add: is_base_digit_def ctype_defs word_le_nat_alt)
  have h4: "valid_digits 8 ?s"
    by (simp add: valid_digits_def d)
  have h5: "radix_value 8 ?s > 2 ^ 64 - 1"
    by (simp add: radix_value_def d)
  have h6: "source_text (plain ?t) = [] @ CHR ''O'' # CHR 0x27 # ?s @ CHR 0x27 # []"
    by (simp add: plain_def)
  have h7: "(0::nat) = length ([] :: string)"
    by simp
  have h8: "addressable (plain ?t)"
    by (simp add: addressable_def plain_def)
  have r: "radix_type 8 = PARSE_LITERAL_OCTAL"
    by (simp add: radix_type_def)
  have n: "length ?s + 3 = (25::nat)" "(0::nat) + 1 = 1" "length ?s + 2 = (24::nat)"
    by simp_all
  note w = radix_overflow_accepted [OF h1 h2 h3 h4 h5 h6 h7 h8, of blank]
  show ?thesis
    using w [unfolded n r] h2 h4 h5 h8 by simp
qed

text \<open>
  C5 as stated fails: the hexadecimal literal \<open>X'10000000000000000'\<close> has the value
  \<open>2 ^ 64\<close> and is recognized, with no diagnostic.
\<close>

theorem radix_overflow_counterexample:
  "radix_value 16 ''10000000000000000'' > 2 ^ 64 - 1
   \<and> radix_recognizer 16 (plain (CHR ''X'' # CHR 0x27 # ''10000000000000000'' @ [CHR 0x27]))
         0 blank
       = Some ((20, blank\<lparr>number := str_ref 1 19, type := PARSE_LITERAL_HEX\<rparr>), [])"
proof -
  let ?s = "''10000000000000000''"
  let ?t = "CHR ''X'' # CHR 0x27 # ?s @ [CHR 0x27]"
  have d: "is_base_digit (CHR ''1'') 16 = Some 1" "is_base_digit (CHR ''0'') 16 = Some 0"
    by (simp_all add: is_base_digit_def ctype_defs word_le_nat_alt)
  have v: "radix_value 16 ?s > 2 ^ 64 - 1"
    by (simp add: radix_value_def d)
  have "radix_letter 16 (CHR ''X'')"
    by (simp add: radix_letter_def ctype_defs)
  moreover have "\<forall>c\<in>set ?s. is_base_digit c 16 \<noteq> None"
    by (simp add: d)
  moreover have "source_text (plain ?t) = [] @ CHR ''X'' # CHR 0x27 # ?s @ CHR 0x27 # []"
    by (simp add: plain_def)
  ultimately have w: "radix_recognizer 16 (plain ?t) (length ([] :: string)) blank
      = Some ((length ?s + 3,
          blank\<lparr>number := str_ref (length ([] :: string) + 1) (length ?s + 2),
            type := radix_type 16\<rparr>), [])"
    by (intro radix_accepts [where q = "CHR 0x27"]) simp_all
  have n: "length ([] :: string) = 0" "length ?s + 3 = (20::nat)" "(0::nat) + 1 = 1"
    "length ?s + 2 = (19::nat)"
    by simp_all
  have r: "radix_type 16 = PARSE_LITERAL_HEX"
    by (simp add: radix_type_def)
  show ?thesis
    using w [unfolded n r] v by simp
qed

section \<open>Numeric literals: the exponent\<close>

text \<open>
  The test of line 390 reads the exponent letter, which is never a digit: the block of
  lines 382 to 403 always takes the branch that forgets the exponent.
\<close>

lemma exponent_never_consumed:
  assumes "number_exponent buf ptr i = Some (k, j)"
  shows "k = 0 \<and> j = i"
proof -
  have "\<not> isdigit c" if "toupper c = CHR ''E'' \<or> toupper c = CHR ''D''" for c
    using that by (auto simp: ctype_defs split: if_splits)
  then show ?thesis
    using assms by (auto simp: number_exponent_def Let_def split: option.splits if_splits)
qed

text \<open>
  So the implicit kind is never set, and the numeric recognizer never reports the
  ambiguity of kinds, on any input.
\<close>

lemma base_diagnostics:
  assumes "parse_literal__base src ptr b quoted want = Some (r, ds)"
  shows "Sparse_warning p ''Kind is ambiguous, ignoring exponent kind'' \<notin> set ds"
  using assms
  by (auto simp: parse_literal__base_def Let_def
      split: option.splits if_splits digits_result.splits)

lemma kind_warning_never_reported:
  assumes "parse_literal__number src ptr literal = Some (r, ds)"
  shows "Sparse_warning p ''Kind is ambiguous, ignoring exponent kind'' \<notin> set ds"
proof -
  have u: "Sparse_warning p ''Kind is ambiguous, ignoring exponent kind'' \<notin> set ds'"
    if "parse_unsigned src q = Some (r', ds')" for q r' ds'
    using that base_diagnostics [of src q 10 False True _ ds' p]
    by (auto simp: parse_unsigned_def Let_def split: option.splits if_splits prod.splits)
  have e: "k = 0" if "number_exponent (source_text src) ptr i = Some (k, j)" for i k j
    using exponent_never_consumed [OF that] by simp
  show ?thesis
    using assms u
    by (auto simp: parse_literal__number_def dest!: e split: option.splits if_splits prod.splits)
qed

text \<open>
  C1. What the code does at \<open>1.0E5\<close>, where the claim expects the five characters to be
  consumed: it consumes three, and the slice is \<open>1.0\<close>. The only diagnostic it can
  report there is the whitespace warning.
\<close>

theorem number_exponent_dropped:
  "parse_literal__number (src\<lparr>source_text := ''1.0E5''\<rparr>) 0 literal
     = Some ((3, literal\<lparr>type := PARSE_LITERAL_NUMBER, kind := 0, number := str_ref 0 3\<rparr>),
         if sparse_sequential src 0 3 then []
         else [Sparse_warning 0 ''Unexpected whitespace in literal number''])
   \<and> str_ref_text ''1.0E5'' (str_ref 0 3) = ''1.0''"
  by (simp add: parse_literal__number_def number_mantissa_def number_exponent_def
      skip_digits.simps peek_def ctype_defs str_ref_text_def str_ref_def Let_def
      numeral_3_eq_3)

text \<open>
  C2. What the code does at \<open>1.0D0_4\<close>, where the claim expects a match of the whole
  text with kind 4 and the ambiguity warning: it stops before the \<open>D\<close>, stores kind 0
  and never reports "Kind is ambiguous".
\<close>

theorem number_kind_suffix_unreached:
  "parse_literal__number (src\<lparr>source_text := ''1.0D0_4''\<rparr>) 0 literal
     = Some ((3, literal\<lparr>type := PARSE_LITERAL_NUMBER, kind := 0, number := str_ref 0 3\<rparr>),
         if sparse_sequential src 0 3 then []
         else [Sparse_warning 0 ''Unexpected whitespace in literal number''])"
  by (simp add: parse_literal__number_def number_mantissa_def number_exponent_def
      skip_digits.simps peek_def ctype_defs str_ref_text_def str_ref_def Let_def
      numeral_3_eq_3)

section \<open>Character literals: the consumed length\<close>

lemma skip_to_quote_ge:
  "skip_to_quote buf ptr quote i is_escaped = Some j \<Longrightarrow> i \<le> j"
proof (induction buf ptr quote i is_escaped rule: skip_to_quote.induct)
  case (1 buf ptr quote i is_escaped)
  show ?case
  proof (cases "peek buf (ptr + i)")
    case None
    then show ?thesis
      using "1.prems" by (subst (asm) skip_to_quote.simps) simp
  next
    case (Some c)
    show ?thesis
    proof (cases "c \<noteq> nul \<and> (c \<noteq> quote \<or> is_escaped)")
      case True
      then have "skip_to_quote buf ptr quote (i + 1) (\<not> is_escaped \<and> c = CHR 0x5C) = Some j"
        using "1.prems" Some by (subst (asm) skip_to_quote.simps) simp
      then have "i + 1 \<le> j"
        using "1.IH" [OF Some True] by simp
      then show ?thesis by simp
    next
      case False
      then have "j = i"
        using "1.prems" Some by (subst (asm) skip_to_quote.simps) auto
      then show ?thesis by simp
    qed
  qed
qed

text \<open>
  C10. Whenever \<open>parse_character\<close> succeeds (in a text short enough for the unsigned
  counters), the consumed length is at least 3: the scan for the closing quote starts at
  index 2, so the quote it finds is at index 2 or later. A consumed length of 2, which
  an empty literal of two quotes would need, is impossible.
\<close>

theorem parse_character_length:
  assumes "parse_character src ptr str = Some ((len, s), ds)" and "addressable src"
  shows "len = 0 \<or> 3 \<le> len"
proof (cases "len = 0")
  case True
  then show ?thesis by simp
next
  case False
  then obtain quote i where "skip_to_quote (source_text src) ptr quote 2 False = Some i"
    and "len = i + 1"
    using assms(1)
    by (auto simp: parse_character_def split: option.splits if_splits scan_result.splits)
  then show ?thesis
    using skip_to_quote_ge [of "source_text src" ptr quote 2 False i] by simp
qed

theorem parse_character_length_witness:
  "addressable (plain [CHR 0x27, CHR 0x27, CHR 0x27])
   \<and> parse_character (plain [CHR 0x27, CHR 0x27, CHR 0x27]) 0 None = Some ((3, Some []), [])
   \<and> ((3::nat) = 0 \<or> (3::nat) \<le> 3)"
proof -
  let ?t = "[CHR 0x27, CHR 0x27, CHR 0x27]"
  have h1: "parse_character (plain ?t) 0 None = Some ((3, Some []), [])"
    by (simp add: parse_character_def plain_def skip_to_quote.simps scan_parent.simps
        decode.simps peek_def nul_def)
  have h2: "addressable (plain ?t)"
    by (simp add: addressable_def plain_def)
  show ?thesis
    using parse_character_length [OF h1 h2] h1 h2 by simp
qed

text \<open>Two quotes at the end of the text: the scan starts on the NUL and reports an error.\<close>

lemma empty_literal_unterminated:
  "parse_character (plain [CHR 0x27, CHR 0x27]) 0 str
     = Some ((0, str), [Sparse_error 0 ''Unterminated string''])"
  by (simp add: parse_character_def plain_def skip_to_quote.simps peek_def nul_def)

section \<open>Character literals: decoding an escape\<close>

text \<open>
  C4, amended. Where the current text and the parent text both hold, at the cursor and
  at its parent position, a double quote, \<open>a\<close>, a backslash, \<open>n\<close>, \<open>b\<close> and a double
  quote, and the allocator returns a buffer of three bytes, \<open>parse_character\<close> yields
  the three bytes \<open>a\<close>, 0x0A, \<open>b\<close> with no diagnostic, and the consumed length is 6:
  the two quotes and the four characters between them.
\<close>

theorem character_escape_decoded:
  assumes "source_text src = pre @ [CHR 0x22, CHR ''a'', CHR 0x5C, CHR ''n'', CHR ''b'', CHR 0x22] @ rest"
    and "ptr = length pre"
    and "sparse_parent_pointer src ptr = Some pptr"
    and "parent_text src = ppre @ [CHR 0x22, CHR ''a'', CHR 0x5C, CHR ''n'', CHR ''b'', CHR 0x22] @ prest"
    and "pptr = length ppre"
    and "string_create src 3 = Some buf" and "length buf = 3"
  shows "parse_character src ptr str = Some ((6, Some [CHR ''a'', CHR 0x0A, CHR ''b'']), [])"
proof -
  obtain x y z where buf: "buf = [x, y, z]"
    using assms(7) by (auto simp: length_Suc_conv eval_nat_numeral)
  have p0: "peek (source_text src) ptr = Some (CHR 0x22)"
    using assms(1,2) by (simp add: peek_at)
  have skip: "skip_to_quote (source_text src) ptr (CHR 0x22) 2 False = Some 5"
    using assms(1,2) by (simp add: skip_to_quote.simps peek_at nul_def)
  have p5: "peek (source_text src) (ptr + 5) = Some (CHR 0x22)"
    using assms(1,2) by (simp add: peek_at)
  have scan: "scan_parent (parent_text src) pptr (CHR 0x22) 1 False 0 = Some (Scanned 5 3)"
    using assms(4,5) by (simp add: scan_parent.simps peek_at)
  have dec: "decode (parent_text src) pptr ptr 5 1 False 0 buf []
               = Some ([CHR ''a'', CHR 0x0A, CHR ''b''], [])"
    using assms(4,5) buf
    by (simp add: decode.simps peek_at poke_def escape_def)
  show ?thesis
    using p0 assms(3) skip p5 scan assms(6) dec
    by (simp add: parse_character_def)
qed

theorem character_escape_decoded_witness:
  "parse_character
     ((plain (''s = '' @ [CHR 0x22, CHR ''a'', CHR 0x5C, CHR ''n'', CHR ''b'', CHR 0x22] @ '' // x''))
        \<lparr>parent_text := ''  s = '' @ [CHR 0x22, CHR ''a'', CHR 0x5C, CHR ''n'', CHR ''b'', CHR 0x22] @ [],
         sparse_parent_pointer := (\<lambda>p. Some (p + 2))\<rparr>)
     4 None
   = Some ((6, Some [CHR ''a'', CHR 0x0A, CHR ''b'']), [])"
proof -
  let ?lit = "[CHR 0x22, CHR ''a'', CHR 0x5C, CHR ''n'', CHR ''b'', CHR 0x22]"
  let ?src = "(plain (''s = '' @ ?lit @ '' // x''))
        \<lparr>parent_text := ''  s = '' @ ?lit @ [],
         sparse_parent_pointer := (\<lambda>p. Some (p + 2))\<rparr>"
  have h1: "source_text ?src = ''s = '' @ ?lit @ '' // x''"
    by (simp add: plain_def)
  have h2: "(4::nat) = length ''s = ''"
    by simp
  have h3: "sparse_parent_pointer ?src 4 = Some 6"
    by simp
  have h4: "parent_text ?src = ''  s = '' @ ?lit @ []"
    by simp
  have h5: "(6::nat) = length ''  s = ''"
    by simp
  have h6: "string_create ?src 3 = Some [nul, nul, nul]"
    by (simp add: plain_def numeral_3_eq_3)
  have h7: "length [nul, nul, nul] = 3"
    by simp
  show ?thesis
    using character_escape_decoded [OF h1 h2 h3 h4 h5 h6 h7] by simp
qed

text \<open>
  C4 as stated fails on the length: the literal has six characters and the recognizer
  reports 6, not 8. The decoded bytes are as the claim says.
\<close>

theorem character_length_counterexample:
  "parse_character (plain [CHR 0x22, CHR ''a'', CHR 0x5C, CHR ''n'', CHR ''b'', CHR 0x22]) 0 None
     = Some ((6, Some [CHR ''a'', CHR 0x0A, CHR ''b'']), [])
   \<and> (6::nat) \<noteq> 8"
  by (simp add: parse_character_def plain_def skip_to_quote.simps scan_parent.simps
      decode.simps peek_def poke_def escape_def nul_def numeral_3_eq_3)

section \<open>Hollerith literals: truncated content is padded\<close>

text \<open>The padding loop fills the buffer with spaces from the position it is given.\<close>

lemma holl_pad_fills:
  "length buf = n \<Longrightarrow> pos \<le> n
   \<Longrightarrow> holl_pad n pos buf = Some (take pos buf @ replicate (n - pos) (CHR '' ''))"
proof (induction n pos buf rule: holl_pad.induct)
  case (1 holl_len holl_pos buf)
  show ?case
  proof (cases "holl_pos < holl_len")
    case False
    then show ?thesis
      using "1.prems" by (subst holl_pad.simps) simp
  next
    case True
    then have pk: "poke buf holl_pos (CHR '' '') = Some (buf[holl_pos := CHR '' ''])"
      using "1.prems" by (simp add: poke_def)
    have "holl_pad holl_len (holl_pos + 1) (buf[holl_pos := CHR '' ''])
          = Some (take (holl_pos + 1) (buf[holl_pos := CHR '' ''])
                  @ replicate (holl_len - (holl_pos + 1)) (CHR '' ''))"
      using "1.IH" [OF True pk] "1.prems" True by simp
    moreover have "take (holl_pos + 1) (buf[holl_pos := CHR '' '']) = take holl_pos buf @ [CHR '' '']"
      using True "1.prems" by (simp add: take_Suc_conv_app_nth)
    moreover have "replicate (holl_len - holl_pos) (CHR '' '')
                   = CHR '' '' # replicate (holl_len - (holl_pos + 1)) (CHR '' '')"
      using True by (cases "holl_len - holl_pos") auto
    ultimately show ?thesis
      using True pk by (subst holl_pad.simps) simp
  qed
qed

lemma holl_copy_run:
  "parent_text src = ppre @ cs @ rest \<Longrightarrow> pptr + j = length ppre
   \<Longrightarrow> list_all (\<lambda>c. \<not> line_end c) cs \<Longrightarrow> peek rest 0 = Some t \<Longrightarrow> line_end t
   \<Longrightarrow> holl_pos + length cs < n \<Longrightarrow> length buf = n
   \<Longrightarrow> ptr + i \<le> length (source_text src)
   \<Longrightarrow> \<exists>i'. holl_copy src ptr pptr n j holl_pos i buf
             = Some (i', holl_pos + length cs,
                 take holl_pos buf @ cs @ drop (holl_pos + length cs) buf)
           \<and> i \<le> i'"
proof (induction cs arbitrary: ppre j holl_pos i buf)
  case Nil
  have "peek (parent_text src) (pptr + j) = Some t"
    using Nil.prems(1,2,4) peek_append [of ppre rest 0] by simp
  then show ?case
    using Nil.prems(5,6) by (subst holl_copy.simps) (simp add: line_end_def)
next
  case (Cons c cs)
  have lt: "holl_pos < n"
    using Cons.prems(6) by simp
  have c: "\<not> line_end c"
    using Cons.prems(3) by simp
  have pp: "peek (parent_text src) (pptr + j) = Some c"
    using Cons.prems(1,2) by (simp add: peek_def)
  have "peek (source_text src) (ptr + i) \<noteq> None"
    using Cons.prems(8) by (simp add: peek_def)
  then obtain x where px: "peek (source_text src) (ptr + i) = Some x"
    by blast
  have adv: "ptr + (if x = c then i + 1 else i) \<le> length (source_text src)"
    using px c Cons.prems(8) by (auto simp: peek_def line_end_def split: if_splits)
  have pk: "poke buf holl_pos c = Some (buf[holl_pos := c])"
    using lt Cons.prems(7) by (simp add: poke_def)
  have "\<exists>i'. holl_copy src ptr pptr n (j + 1) (holl_pos + 1) (if x = c then i + 1 else i)
                (buf[holl_pos := c])
             = Some (i', holl_pos + 1 + length cs,
                 take (holl_pos + 1) (buf[holl_pos := c]) @ cs
                 @ drop (holl_pos + 1 + length cs) (buf[holl_pos := c]))
           \<and> (if x = c then i + 1 else i) \<le> i'"
  proof (rule Cons.IH)
    show "parent_text src = (ppre @ [c]) @ cs @ rest"
      using Cons.prems(1) by simp
    show "pptr + (j + 1) = length (ppre @ [c])"
      using Cons.prems(2) by simp
    show "list_all (\<lambda>c. \<not> line_end c) cs"
      using Cons.prems(3) by simp
    show "peek rest 0 = Some t" "line_end t"
      by (rule Cons.prems(4), rule Cons.prems(5))
    show "holl_pos + 1 + length cs < n"
      using Cons.prems(6) by simp
    show "length (buf[holl_pos := c]) = n"
      using Cons.prems(7) by simp
    show "ptr + (if x = c then i + 1 else i) \<le> length (source_text src)"
      by (rule adv)
  qed
  then obtain i' where
    r: "holl_copy src ptr pptr n (j + 1) (holl_pos + 1) (if x = c then i + 1 else i)
          (buf[holl_pos := c])
        = Some (i', holl_pos + 1 + length cs,
            take (holl_pos + 1) (buf[holl_pos := c]) @ cs
            @ drop (holl_pos + 1 + length cs) (buf[holl_pos := c]))"
    and le: "(if x = c then i + 1 else i) \<le> i'"
    by blast
  have t: "take (holl_pos + 1) (buf[holl_pos := c]) = take holl_pos buf @ [c]"
    using lt Cons.prems(7) by (simp add: take_Suc_conv_app_nth)
  have d: "drop (holl_pos + 1 + length cs) (buf[holl_pos := c])
           = drop (holl_pos + length (c # cs)) buf"
    by simp
  have "holl_copy src ptr pptr n j holl_pos i buf
        = Some (i', holl_pos + length (c # cs),
            take holl_pos buf @ (c # cs) @ drop (holl_pos + length (c # cs)) buf)"
    using lt pp c px pk r t d
    by (subst holl_copy.simps) (simp add: line_end_def)
  moreover have "i \<le> i'"
    using le by (simp split: if_splits)
  ultimately show ?case by blast
qed

text \<open>
  C7. Let the count parse as \<open>holl_len\<close>, an \<open>H\<close> follow it, the parent pointer and the
  buffer of \<open>holl_len\<close> bytes be available, and the parent text after the \<open>H\<close> hold the
  characters \<open>cs\<close>, fewer than \<open>holl_len\<close>, before a line terminator or the end of the
  buffer. Then \<open>parse_hollerith\<close> succeeds, and the buffer it yields is \<open>cs\<close> followed by
  spaces up to \<open>holl_len\<close> bytes. For \<open>5Hab\<close> before a newline that is \<open>ab\<close> and three
  spaces.
\<close>

theorem hollerith_truncated_padded:
  assumes "parse_unsigned src ptr = Some ((i, Some holl_len), ds)" and "i \<noteq> 0"
    and "peek (source_text src) (ptr + i) = Some h" and "toupper h = CHR ''H''"
    and "sparse_parent_pointer src (ptr + i) = Some pptr"
    and "string_create src (unat holl_len) = Some buf" and "length buf = unat holl_len"
    and "parent_text src = ppre @ ph # cs @ rest" and "pptr = length ppre"
    and "list_all (\<lambda>c. \<not> line_end c) cs" and "peek rest 0 = Some t" and "line_end t"
    and "length cs < unat holl_len"
    and "addressable src"
  shows "\<exists>len. parse_hollerith src ptr str
                 = Some ((len, Some (cs @ replicate (unat holl_len - length cs) (CHR '' ''))), ds)
               \<and> i + 1 \<le> len"
proof -
  let ?n = "unat holl_len"
  have "h \<noteq> nul"
    using assms(4) by (auto simp: ctype_defs)
  then have inb: "ptr + (i + 1) \<le> length (source_text src)"
    using assms(3) by (auto simp: peek_def split: if_splits)
  have "\<exists>i'. holl_copy src ptr pptr ?n 1 0 (i + 1) buf
               = Some (i', 0 + length cs, take 0 buf @ cs @ drop (0 + length cs) buf)
             \<and> i + 1 \<le> i'"
  proof (rule holl_copy_run [OF _ _ assms(10,11,12) _ assms(7) inb])
    show "parent_text src = (ppre @ [ph]) @ cs @ rest"
      using assms(8) by simp
    show "pptr + 1 = length (ppre @ [ph])"
      using assms(9) by simp
    show "0 + length cs < ?n"
      using assms(13) by simp
  qed
  then obtain i' where
    cp: "holl_copy src ptr pptr ?n 1 0 (i + 1) buf
         = Some (i', length cs, cs @ drop (length cs) buf)"
    and le: "i + 1 \<le> i'"
    by auto
  have "holl_pad ?n (length cs) (cs @ drop (length cs) buf)
        = Some (take (length cs) (cs @ drop (length cs) buf)
                @ replicate (?n - length cs) (CHR '' ''))"
    using assms(7,13) by (intro holl_pad_fills) simp_all
  then have pad: "holl_pad ?n (length cs) (cs @ drop (length cs) buf)
        = Some (cs @ replicate (?n - length cs) (CHR '' ''))"
    by simp
  have "parse_hollerith src ptr str
        = Some ((i', Some (cs @ replicate (?n - length cs) (CHR '' ''))), ds)"
    using assms(1,2,3,4,5,6) cp pad by (simp add: parse_hollerith_def)
  then show ?thesis
    using le by blast
qed

theorem hollerith_truncated_padded_witness:
  "parse_hollerith ((plain ''5Hab'')\<lparr>parent_text := ''5Hab'' @ [CHR 0x0A] @ ''C next''\<rparr>) 0 None
     = Some ((4, Some ''ab   ''), [])"
proof -
  let ?src = "(plain ''5Hab'')\<lparr>parent_text := ''5Hab'' @ [CHR 0x0A] @ ''C next''\<rparr>"
  have d: "is_base_digit (CHR ''5'') 10 = Some 5" "is_base_digit (CHR ''H'') 10 = None"
    by (simp_all add: is_base_digit_def ctype_defs word_le_nat_alt)
  have h1: "parse_unsigned ?src 0 = Some ((1, Some 5), [])"
    by (simp add: parse_unsigned_def parse_literal__base_def digits_loop.simps plain_def
        peek_def d Let_def)
  have h2: "(1::nat) \<noteq> 0"
    by simp
  have h3: "peek (source_text ?src) (0 + 1) = Some (CHR ''H'')"
    by (simp add: plain_def peek_def)
  have h4: "toupper (CHR ''H'') = CHR ''H''"
    by (simp add: ctype_defs)
  have h5: "sparse_parent_pointer ?src (0 + 1) = Some 1"
    by (simp add: plain_def)
  have h6: "string_create ?src (unat (5 :: 32 word)) = Some (replicate 5 nul)"
    by (simp add: plain_def)
  have h7: "length (replicate 5 nul) = unat (5 :: 32 word)"
    by simp
  have h8: "parent_text ?src = ''5'' @ CHR ''H'' # ''ab'' @ (CHR 0x0A # ''C next'')"
    by simp
  have h9: "(1::nat) = length ''5''"
    by simp
  have h10: "list_all (\<lambda>c. \<not> line_end c) ''ab''"
    by (simp add: line_end_def nul_def)
  have h11: "peek (CHR 0x0A # ''C next'') 0 = Some (CHR 0x0A)"
    by (simp add: peek_def)
  have h12: "line_end (CHR 0x0A)"
    by (simp add: line_end_def)
  have h13: "length ''ab'' < unat (5 :: 32 word)"
    by simp
  have h14: "addressable ?src"
    by (simp add: addressable_def plain_def)
  obtain len where
    r: "parse_hollerith ?src 0 None
        = Some ((len, Some (''ab'' @ replicate (unat (5 :: 32 word) - length ''ab'') (CHR '' ''))), [])"
    using hollerith_truncated_padded [OF h1 h2 h3 h4 h5 h6 h7 h8 h9 h10 h11 h12 h13 h14]
    by blast
  have five: "replicate 5 x = [x, x, x, x, x]" for x :: char
    by (simp add: eval_nat_numeral)
  have e: "parse_hollerith ?src 0 None = Some ((4, Some ''ab   ''), [])"
    by (simp add: five parse_hollerith_def parse_unsigned_def parse_literal__base_def
        digits_loop.simps d Let_def plain_def peek_def ctype_defs holl_copy.simps
        holl_pad.simps poke_def)
  show ?thesis
    using r e by simp
qed

section \<open>The numeric recognizer stays inside the text\<close>

text \<open>
  From a pointer into the text, NUL included, the loops of the numeric recognizer stop at
  the NUL at the latest: every read is inside the buffer and the functions return.
\<close>

lemma peek_in: "i \<le> length buf \<Longrightarrow> \<exists>c. peek buf i = Some c"
  by (simp add: peek_def)

lemma peek_not_nul: "peek buf i = Some c \<Longrightarrow> c \<noteq> nul \<Longrightarrow> i < length buf"
  by (auto simp: peek_def split: if_splits)

lemma skip_digits_total:
  "ptr + i \<le> length buf
   \<Longrightarrow> \<exists>j. skip_digits buf ptr i = Some j \<and> i \<le> j \<and> ptr + j \<le> length buf"
proof (induction buf ptr i rule: skip_digits.induct)
  case (1 buf ptr i)
  obtain c where c: "peek buf (ptr + i) = Some c"
    using peek_in [OF "1.prems"] by blast
  show ?case
  proof (cases "isdigit c")
    case False
    then show ?thesis
      using c "1.prems" by (subst skip_digits.simps) simp
  next
    case True
    then have "c \<noteq> nul"
      by (auto simp: ctype_defs)
    then have "ptr + (i + 1) \<le> length buf"
      using peek_not_nul [OF c] by simp
    then obtain j where "skip_digits buf ptr (i + 1) = Some j" "i + 1 \<le> j" "ptr + j \<le> length buf"
      using "1.IH" [OF c True] by blast
    then show ?thesis
      using c True by (subst skip_digits.simps) simp
  qed
qed

lemma skip_digits_advances:
  assumes "peek buf (ptr + i) = Some c" and "isdigit c" and "skip_digits buf ptr i = Some j"
  shows "i + 1 \<le> j"
proof -
  have "c \<noteq> nul"
    using assms(2) by (auto simp: ctype_defs)
  then have "ptr + (i + 1) \<le> length buf"
    using peek_not_nul [OF assms(1)] by simp
  then obtain j' where "skip_digits buf ptr (i + 1) = Some j'" and "i + 1 \<le> j'"
    using skip_digits_total by blast
  moreover have "skip_digits buf ptr i = skip_digits buf ptr (i + 1)"
    using assms(1,2) by (subst skip_digits.simps) simp
  ultimately show ?thesis
    using assms(3) by simp
qed

lemma number_mantissa_total:
  assumes "ptr \<le> length buf"
  shows "\<exists>had_int had_fract i. number_mantissa buf ptr = Some (had_int, had_fract, i)
           \<and> ptr + i \<le> length buf \<and> (had_int \<or> had_fract \<longrightarrow> 0 < i)"
proof -
  obtain c0 where c0: "peek buf ptr = Some c0"
    using peek_in [OF assms] by blast
  define i0 :: nat where "i0 = (if c0 = CHR ''-'' \<or> c0 = CHR ''+'' then 1 else 0)"
  have "c0 \<noteq> nul" if "i0 = 1"
    using that by (auto simp: i0_def nul_def split: if_splits)
  then have b0: "ptr + i0 \<le> length buf"
    using peek_not_nul [OF c0] assms by (cases "i0 = 1") (auto simp: i0_def)
  obtain c1 where c1: "peek buf (ptr + i0) = Some c1"
    using peek_in [OF b0] by blast
  obtain i1 where s1: "skip_digits buf ptr i0 = Some i1" and b1: "ptr + i1 \<le> length buf"
    using skip_digits_total [OF b0] by blast
  have adv: "0 < i1" if "isdigit c1"
    using skip_digits_advances [OF c1 that s1] by simp
  obtain c2 where c2: "peek buf (ptr + i1) = Some c2"
    using peek_in [OF b1] by blast
  show ?thesis
  proof (cases "c2 = CHR ''.''")
    case False
    then show ?thesis
      using c0 c1 s1 c2 b1 adv by (auto simp: number_mantissa_def i0_def Let_def)
  next
    case True
    then have "c2 \<noteq> nul"
      by (simp add: nul_def)
    then have b2: "ptr + (i1 + 1) \<le> length buf"
      using peek_not_nul [OF c2] by simp
    obtain c3 where c3: "peek buf (ptr + (i1 + 1)) = Some c3"
      using peek_in [OF b2] by blast
    obtain i2 where s2: "skip_digits buf ptr (i1 + 1) = Some i2" and b3: "ptr + i2 \<le> length buf"
      and "i1 + 1 \<le> i2"
      using skip_digits_total [OF b2] by blast
    then have "0 < i2"
      by simp
    then show ?thesis
      using c0 c1 s1 c2 True c3 s2 b3 by (auto simp: number_mantissa_def i0_def Let_def)
  qed
qed

lemma number_exponent_total:
  assumes "ptr + i \<le> length buf"
  shows "number_exponent buf ptr i = Some (0, i)"
proof -
  obtain c where c: "peek buf (ptr + i) = Some c"
    using peek_in [OF assms] by blast
  have "number_exponent buf ptr i \<noteq> None"
  proof (cases "toupper c = CHR ''E'' \<or> toupper c = CHR ''D''")
    case False
    then show ?thesis
      using c by (simp add: number_exponent_def)
  next
    case True
    then have "c \<noteq> nul"
      by (auto simp: ctype_defs)
    then have "ptr + (i + 1) \<le> length buf"
      using peek_not_nul [OF c] by simp
    then obtain c' where c': "peek buf (ptr + (i + 1)) = Some c'"
      using peek_in by blast
    have "\<not> isdigit c"
      using True by (auto simp: ctype_defs split: if_splits)
    then show ?thesis
      using c c' True by (simp add: number_exponent_def Let_def)
  qed
  then show ?thesis
    using exponent_never_consumed [of buf ptr i] by (cases "number_exponent buf ptr i") auto
qed

lemma digits_loop_total:
  "ptr + i \<le> length buf
   \<Longrightarrow> digits_loop buf ptr b want i v = Some Overflow
     \<or> (\<exists>j v'. digits_loop buf ptr b want i v = Some (Digits j v') \<and> i \<le> j
           \<and> ptr + j \<le> length buf)"
proof (induction buf ptr b want i v rule: digits_loop.induct)
  case (1 buf ptr b want i v)
  obtain c where c: "peek buf (ptr + i) = Some c"
    using peek_in [OF "1.prems"] by blast
  show ?case
  proof (cases "is_base_digit c b")
    case None
    then show ?thesis
      using c "1.prems" by (subst digits_loop.simps, subst digits_loop.simps) simp
  next
    case (Some d)
    then have "c \<noteq> nul"
      by (auto simp: is_base_digit_def ctype_defs split: if_splits)
    then have nx: "ptr + (i + 1) \<le> length buf"
      using peek_not_nul [OF c] by simp
    show ?thesis
    proof (cases want)
      case False
      have "digits_loop buf ptr b want (i + 1) v = Some Overflow
        \<or> (\<exists>j v'. digits_loop buf ptr b want (i + 1) v = Some (Digits j v') \<and> i + 1 \<le> j
              \<and> ptr + j \<le> length buf)"
        using "1.IH"(2) [OF c Some False nx] .
      then show ?thesis
        using c Some False
        by (subst digits_loop.simps, subst digits_loop.simps) auto
    next
      case True
      define nv where "nv = v * 10 + ucast d"
      show ?thesis
      proof (cases "nv div ucast b \<noteq> v \<or> nv mod ucast b \<noteq> ucast d")
        case bad: True
        then show ?thesis
          using c Some True by (subst digits_loop.simps) (simp add: nv_def Let_def)
      next
        case ok: False
        have "digits_loop buf ptr b want (i + 1) nv = Some Overflow
          \<or> (\<exists>j v'. digits_loop buf ptr b want (i + 1) nv = Some (Digits j v') \<and> i + 1 \<le> j
                \<and> ptr + j \<le> length buf)"
          using "1.IH"(1) [OF c Some True nv_def ok nx] .
        then show ?thesis
          using c Some True ok
          by (subst digits_loop.simps, subst digits_loop.simps) (auto simp: nv_def Let_def)
      qed
    qed
  qed
qed

lemma parse_literal__base_total:
  assumes "ptr \<le> length (source_text src)"
  shows "\<exists>len u ds. parse_literal__base src ptr b False want = Some ((len, u), ds)
           \<and> ptr + len \<le> length (source_text src) \<and> (len \<noteq> 0 \<and> want \<longrightarrow> u \<noteq> None)"
proof -
  obtain c where c: "peek (source_text src) (ptr + 0) = Some c"
    using peek_in [of "ptr + 0"] assms by auto
  show ?thesis
  proof (cases "is_base_digit c b")
    case None
    then show ?thesis
      using c assms by (simp add: parse_literal__base_def)
  next
    case (Some d)
    have "ptr + 0 \<le> length (source_text src)"
      using assms by simp
    from digits_loop_total [OF this, of b want 0]
    show ?thesis
    proof (elim disjE exE conjE)
      assume "digits_loop (source_text src) ptr b want 0 0 = Some Overflow"
      then show ?thesis
        using c Some assms by (simp add: parse_literal__base_def)
    next
      fix j v'
      assume "digits_loop (source_text src) ptr b want 0 0 = Some (Digits j v')"
        and "ptr + j \<le> length (source_text src)"
      then show ?thesis
        using c Some by (simp add: parse_literal__base_def Let_def)
    qed
  qed
qed

lemma parse_unsigned_total:
  assumes "ptr \<le> length (source_text src)"
  shows "\<exists>len k ds. parse_unsigned src ptr = Some ((len, k), ds)
           \<and> ptr + len \<le> length (source_text src) \<and> (len \<noteq> 0 \<longrightarrow> k \<noteq> None)"
proof -
  obtain len u ds where b: "parse_literal__base src ptr 10 False True = Some ((len, u), ds)"
    and le: "ptr + len \<le> length (source_text src)" and u: "len \<noteq> 0 \<longrightarrow> u \<noteq> None"
    using parse_literal__base_total [OF assms, of 10 True] by auto
  show ?thesis
  proof (cases "len = 0")
    case True
    then show ?thesis
      using b assms by (simp add: parse_unsigned_def)
  next
    case False
    then obtain u' where "u = Some u'"
      using u by auto
    then show ?thesis
      using b le False assms by (auto simp: parse_unsigned_def Let_def)
  qed
qed

lemma parse_literal__number_total:
  assumes "ptr \<le> length (source_text src)"
  shows "\<exists>len l ds. parse_literal__number src ptr literal = Some ((len, l), ds)
           \<and> ptr + len \<le> length (source_text src) \<and> (len = 0 \<longrightarrow> l = literal)"
proof -
  let ?buf = "source_text src"
  obtain had_int had_fract i where m: "number_mantissa ?buf ptr = Some (had_int, had_fract, i)"
    and bi: "ptr + i \<le> length ?buf" and pos: "had_int \<or> had_fract \<longrightarrow> 0 < i"
    using number_mantissa_total [OF assms] by blast
  have e: "number_exponent ?buf ptr i = Some (0, i)"
    using bi by (rule number_exponent_total)
  obtain c where c: "peek ?buf (ptr + i) = Some c"
    using peek_in [OF bi] by blast
  show ?thesis
  proof (cases "\<not> had_fract \<and> \<not> had_int")
    case True
    then show ?thesis
      using m e assms by (simp add: parse_literal__number_def)
  next
    case digits: False
    show ?thesis
    proof (cases "c = CHR ''_''")
      case False
      then show ?thesis
        using m e digits c bi pos by (auto simp: parse_literal__number_def)
    next
      case True
      then have "c \<noteq> nul"
        by (simp add: nul_def)
      then have "ptr + (i + 1) \<le> length ?buf"
        using peek_not_nul [OF c] by simp
      then obtain len k ds where p: "parse_unsigned src (ptr + (i + 1)) = Some ((len, k), ds)"
        and le: "ptr + (i + 1) + len \<le> length ?buf" and k: "len \<noteq> 0 \<longrightarrow> k \<noteq> None"
        using parse_unsigned_total [of "ptr + (i + 1)" src] by auto
      show ?thesis
      proof (cases "len = 0")
        case True
        then show ?thesis
          using m e digits c \<open>c = CHR ''_''\<close> p assms
          by (simp add: parse_literal__number_def)
      next
        case False
        then obtain k' where "k = Some k'"
          using k by auto
        then show ?thesis
          using m e digits c \<open>c = CHR ''_''\<close> p le False
          by (simp add: parse_literal__number_def)
      qed
    qed
  qed
qed

section \<open>Complex literals\<close>

text \<open>
  A pointer into a text without the shape of a complex literal: the recognizer returns 0,
  and the literal it was given comes back as it was.
\<close>

lemma complex_mismatch:
  assumes "ptr \<le> length (source_text src)" and "\<not> complex_shape src ptr"
  shows "\<exists>ds. parse_literal__complex src ptr literal = Some ((0, literal), ds)"
proof -
  let ?buf = "source_text src"
  let ?u = "uninitialised src"
  obtain c where c: "peek ?buf ptr = Some c"
    using peek_in [OF assms(1)] by blast
  show ?thesis
  proof (cases "c = CHR ''(''")
    case False
    then show ?thesis
      using c by (simp add: parse_literal__complex_def)
  next
    case True
    then have "c \<noteq> nul"
      by (simp add: nul_def)
    then have b1: "ptr + 1 \<le> length ?buf"
      using peek_not_nul [OF c] by simp
    obtain n l ds where n: "parse_literal__number src (ptr + 1) ?u = Some ((n, l), ds)"
      and bn: "ptr + 1 + n \<le> length ?buf"
      using parse_literal__number_total [OF b1] by blast
    have nl: "number_length src (ptr + 1) = Some n"
      using n by (simp add: number_length_def)
    obtain c' where c': "peek ?buf (ptr + 1 + n) = Some c'"
      using peek_in [OF bn] by blast
    show ?thesis
    proof (cases "n = 0 \<or> c' \<noteq> CHR '',''")
      case True
      then show ?thesis
        using c \<open>c = CHR ''(''\<close> n c' by (auto simp: parse_literal__complex_def add.assoc)
    next
      case False
      then have "c' \<noteq> nul"
        by (simp add: nul_def)
      then have b2: "ptr + 1 + n + 1 \<le> length ?buf"
        using peek_not_nul [OF c'] by simp
      obtain m r ds' where m: "parse_literal__number src (ptr + 1 + n + 1) ?u = Some ((m, r), ds')"
        and bm: "ptr + 1 + n + 1 + m \<le> length ?buf"
        using parse_literal__number_total [OF b2] by blast
      have ml: "number_length src (ptr + 1 + n + 1) = Some m"
        using m by (simp add: number_length_def)
      obtain c'' where c'': "peek ?buf (ptr + 1 + n + 1 + m) = Some c''"
        using peek_in [OF bm] by blast
      have "m = 0 \<or> c'' \<noteq> CHR '')''"
        using assms(2) c \<open>c = CHR ''(''\<close> nl c' False ml c''
        by (auto simp: complex_shape_def)
      then show ?thesis
        using c \<open>c = CHR ''(''\<close> n c' False m c''
        by (auto simp: parse_literal__complex_def add.assoc)
    qed
  qed
qed

text \<open>The recognizer at \<open>(1.0,2.0)\<close>, whatever follows it.\<close>

lemma complex_example:
  "parse_literal__complex (src\<lparr>source_text := ''(1.0,2.0)'' @ rest\<rparr>) 0 literal
     = Some ((9,
         literal\<lparr>type := PARSE_LITERAL_COMPLEX, left_number := str_ref 1 3,
           right_number := str_ref 5 3\<rparr>),
         (if sparse_sequential src 1 3 then []
          else [Sparse_warning 1 ''Unexpected whitespace in literal number''])
         @ (if sparse_sequential src 5 3 then []
            else [Sparse_warning 5 ''Unexpected whitespace in literal number'']))
   \<and> str_ref_text (''(1.0,2.0)'' @ rest) (str_ref 1 3) = ''1.0''
   \<and> str_ref_text (''(1.0,2.0)'' @ rest) (str_ref 5 3) = ''2.0''"
proof -
  let ?src = "src\<lparr>source_text := ''(1.0,2.0)'' @ rest\<rparr>"
  have l: "parse_literal__number ?src 1 u
     = Some ((3, u\<lparr>type := PARSE_LITERAL_NUMBER, kind := 0, number := str_ref 1 3\<rparr>),
         if sparse_sequential src 1 3 then []
         else [Sparse_warning 1 ''Unexpected whitespace in literal number''])" for u
    by (simp add: parse_literal__number_def number_mantissa_def number_exponent_def
      skip_digits.simps peek_lit ctype_defs Let_def numeral_3_eq_3)
  have r: "parse_literal__number ?src 5 u
     = Some ((3, u\<lparr>type := PARSE_LITERAL_NUMBER, kind := 0, number := str_ref 5 3\<rparr>),
         if sparse_sequential src 5 3 then []
         else [Sparse_warning 5 ''Unexpected whitespace in literal number''])" for u
    by (simp add: parse_literal__number_def number_mantissa_def number_exponent_def
      skip_digits.simps peek_lit ctype_defs Let_def numeral_3_eq_3)
  have "parse_literal__complex ?src 0 literal
     = Some ((9,
         literal\<lparr>type := PARSE_LITERAL_COMPLEX, left_number := str_ref 1 3,
           right_number := str_ref 5 3\<rparr>),
         (if sparse_sequential src 1 3 then []
          else [Sparse_warning 1 ''Unexpected whitespace in literal number''])
         @ (if sparse_sequential src 5 3 then []
            else [Sparse_warning 5 ''Unexpected whitespace in literal number'']))"
    using l [of "uninitialised src"] r [of "uninitialised src"]
    by (simp add: parse_literal__complex_def peek_lit)
  then show ?thesis
    by (simp add: str_ref_text_def str_ref_def)
qed

text \<open>
  C8. At \<open>(1.0,2.0)\<close> the complex recognizer succeeds, consumes 9 characters, and the
  result is tagged complex with the real-part slice \<open>1.0\<close> and the imaginary-part slice
  \<open>2.0\<close>. For every pointer into a text with a structural mismatch (no opening
  parenthesis, a first or second part the numeric recognizer does not match, no comma, no
  closing parenthesis) the recognizer returns 0 and the caller's literal is unchanged.
\<close>

theorem complex_literal:
  assumes "ptr \<le> length (source_text src)" and "\<not> complex_shape src ptr"
  shows "parse_literal__complex (e\<lparr>source_text := ''(1.0,2.0)'' @ rest\<rparr>) 0 l
           = Some ((9,
               l\<lparr>type := PARSE_LITERAL_COMPLEX, left_number := str_ref 1 3,
                 right_number := str_ref 5 3\<rparr>),
               (if sparse_sequential e 1 3 then []
                else [Sparse_warning 1 ''Unexpected whitespace in literal number''])
               @ (if sparse_sequential e 5 3 then []
                  else [Sparse_warning 5 ''Unexpected whitespace in literal number'']))
       \<and> str_ref_text (''(1.0,2.0)'' @ rest) (str_ref 1 3) = ''1.0''
       \<and> str_ref_text (''(1.0,2.0)'' @ rest) (str_ref 5 3) = ''2.0''
       \<and> (\<exists>ds. parse_literal__complex src ptr literal = Some ((0, literal), ds))"
  using complex_example [where src = e and rest = rest and literal = l]
    complex_mismatch [OF assms, where literal = literal]
  by simp

theorem complex_literal_witness:
  "\<not> complex_shape (plain ''(1.0,2.0'') 0
   \<and> parse_literal__complex (plain ''(1.0,2.0'') 0 blank = Some ((0, blank), [])
   \<and> parse_literal__complex (plain ''(1.0,2.0)'') 0 blank
       = Some ((9,
           blank\<lparr>type := PARSE_LITERAL_COMPLEX, left_number := str_ref 1 3,
             right_number := str_ref 5 3\<rparr>), [])"
proof -
  let ?bad = "plain ''(1.0,2.0''"
  have n1: "parse_literal__number ?bad 1 blank
     = Some ((3, blank\<lparr>type := PARSE_LITERAL_NUMBER, kind := 0, number := str_ref 1 3\<rparr>), [])"
    by (simp add: plain_def parse_literal__number_def number_mantissa_def number_exponent_def
      skip_digits.simps peek_def ctype_defs Let_def numeral_3_eq_3)
  have n2: "parse_literal__number ?bad 5 blank
     = Some ((3, blank\<lparr>type := PARSE_LITERAL_NUMBER, kind := 0, number := str_ref 5 3\<rparr>), [])"
    by (simp add: plain_def parse_literal__number_def number_mantissa_def number_exponent_def
      skip_digits.simps peek_def ctype_defs Let_def numeral_3_eq_3)
  have u: "uninitialised ?bad = blank" "source_text ?bad = ''(1.0,2.0''"
    by (simp_all add: plain_def)
  have h1: "(0::nat) \<le> length (source_text ?bad)"
    by simp
  have h2: "\<not> complex_shape ?bad 0"
    using n1 n2 by (simp add: complex_shape_def number_length_def u peek_lit peek_def nul_def)
  have e: "parse_literal__complex ?bad 0 blank = Some ((0, blank), [])"
    using n1 n2 by (simp add: parse_literal__complex_def u peek_lit peek_def nul_def)
  have g: "sparse_sequential (plain t) p n" for t p n
    by (simp add: plain_def)
  have s: "(plain t)\<lparr>source_text := t\<rparr> = plain t" for t
    by (simp add: plain_def)
  note w = complex_literal [OF h1 h2, where e = "plain ''(1.0,2.0)''" and rest = "[]"
      and l = blank and literal = blank]
  show ?thesis
    using w h2 e by (simp add: g s)
qed

section \<open>The dispatcher leaves the output alone on failure\<close>

lemma attempt_zero:
  assumes "r = Some ((0, l), ds)" and "returns_zero f src ptr"
  shows "\<exists>l' ds'. attempt f src ptr r = Some ((0, l'), ds')"
proof -
  obtain l' ds' where "f src ptr l = Some ((0, l'), ds')"
    using assms(2) unfolding returns_zero_def by blast
  then show ?thesis
    using assms(1) by (simp add: attempt_def)
qed

lemma parse_literal_all_fail:
  assumes "all_fail src ptr"
  shows "\<exists>ds. parse_literal src ptr literal = Some ((0, literal), ds)"
proof -
  let ?l = "(uninitialised src)\<lparr>kind := 0\<rparr>"
  have f: "returns_zero parse_literal__character src ptr"
    "returns_zero parse_literal__hollerith src ptr"
    "returns_zero parse_literal__complex src ptr"
    "returns_zero parse_literal__binary src ptr"
    "returns_zero parse_literal__octal src ptr"
    "returns_zero parse_literal__hex src ptr"
    "returns_zero parse_literal__logical src ptr"
    "returns_zero parse_literal__number src ptr"
    using assms by (simp_all add: all_fail_def recognizers_def)
  define r0 :: literal_result where "r0 = Some ((0, ?l), [])"
  define r1 where "r1 = attempt parse_literal__character src ptr r0"
  define r2 where "r2 = attempt parse_literal__hollerith src ptr r1"
  define r3 where "r3 = attempt parse_literal__complex src ptr r2"
  define r4 where "r4 = attempt parse_literal__binary src ptr r3"
  define r5 where "r5 = attempt parse_literal__octal src ptr r4"
  define r6 where "r6 = attempt parse_literal__hex src ptr r5"
  define r7 where "r7 = attempt parse_literal__logical src ptr r6"
  define r8 where "r8 = attempt parse_literal__number src ptr r7"
  obtain l1 d1 where 1: "r1 = Some ((0, l1), d1)"
    unfolding r1_def using attempt_zero [OF r0_def f(1)] by blast
  obtain l2 d2 where 2: "r2 = Some ((0, l2), d2)"
    unfolding r2_def using attempt_zero [OF 1 f(2)] by blast
  obtain l3 d3 where 3: "r3 = Some ((0, l3), d3)"
    unfolding r3_def using attempt_zero [OF 2 f(3)] by blast
  obtain l4 d4 where 4: "r4 = Some ((0, l4), d4)"
    unfolding r4_def using attempt_zero [OF 3 f(4)] by blast
  obtain l5 d5 where 5: "r5 = Some ((0, l5), d5)"
    unfolding r5_def using attempt_zero [OF 4 f(5)] by blast
  obtain l6 d6 where 6: "r6 = Some ((0, l6), d6)"
    unfolding r6_def using attempt_zero [OF 5 f(6)] by blast
  obtain l7 d7 where 7: "r7 = Some ((0, l7), d7)"
    unfolding r7_def using attempt_zero [OF 6 f(7)] by blast
  obtain l8 d8 where 8: "r8 = Some ((0, l8), d8)"
    unfolding r8_def using attempt_zero [OF 7 f(8)] by blast
  have "parse_literal src ptr literal
        = (case r8 of None \<Rightarrow> None
           | Some ((len, l'), ds) \<Rightarrow>
               if len = 0 then Some ((0, literal), ds) else Some ((len, l'), ds))"
    by (simp add: parse_literal_def Let_def r0_def r1_def r2_def r3_def r4_def r5_def r6_def
        r7_def r8_def)
  then show ?thesis
    using 8 by simp
qed

lemma parse_literal_zero_frame:
  assumes "parse_literal src ptr literal = Some ((0, l'), ds)"
  shows "l' = literal"
  using assms
  by (auto simp: parse_literal_def Let_def split: option.splits prod.splits if_splits)

text \<open>
  C9. On every input on which each sub-recognizer returns 0, \<open>parse_literal\<close> returns 0
  and hands the caller's literal back unchanged; and whenever \<open>parse_literal\<close> returns
  0, for whatever reason, the caller's literal is unchanged.
\<close>

theorem parse_literal_failure_untouched:
  "(all_fail src ptr \<longrightarrow> (\<exists>ds. parse_literal src ptr literal = Some ((0, literal), ds)))
   \<and> (parse_literal src ptr literal = Some ((0, l'), ds') \<longrightarrow> l' = literal)"
  using parse_literal_all_fail [of src ptr literal]
    parse_literal_zero_frame [of src ptr literal l' ds']
  by blast

theorem parse_literal_failure_untouched_witness:
  "all_fail (plain ''x = 1'') 0
   \<and> parse_literal (plain ''x = 1'') 0 blank = Some ((0, blank), [])"
proof -
  let ?src = "plain ''x = 1''"
  have c: "parse_literal__character ?src 0 l = Some ((0, l), [])" for l
    by (simp add: parse_literal__character_def parse_character_def plain_def peek_def)
  have d: "is_base_digit (CHR ''x'') 10 = None"
    by (simp add: is_base_digit_def ctype_defs word_le_nat_alt char_of_eq_iff take_bit_eq_mod)
  have h: "parse_literal__hollerith ?src 0 l = Some ((0, l), [])" for l
    by (simp add: parse_literal__hollerith_def parse_hollerith_def parse_unsigned_def
        parse_literal__base_def plain_def peek_def d)
  have x: "parse_literal__complex ?src 0 l = Some ((0, l), [])" for l
    by (simp add: parse_literal__complex_def plain_def peek_def)
  have b: "parse_literal__binary ?src 0 l = Some ((0, l), [])" for l
    by (simp add: parse_literal__binary_def plain_def peek_def ctype_defs char_of_eq_iff
        take_bit_eq_mod)
  have o: "parse_literal__octal ?src 0 l = Some ((0, l), [])" for l
    by (simp add: parse_literal__octal_def plain_def peek_def ctype_defs char_of_eq_iff
        take_bit_eq_mod)
  have z: "parse_literal__hex ?src 0 l = Some ((0, l), [])" for l
    by (simp add: parse_literal__hex_def parse_literal__base_def plain_def peek_def ctype_defs
        char_of_eq_iff take_bit_eq_mod)
  have g: "parse_literal__logical ?src 0 l = Some ((0, l), [])" for l
    by (simp add: parse_literal__logical_def plain_def peek_def)
  have n: "parse_literal__number ?src 0 l = Some ((0, l), [])" for l
    by (simp add: parse_literal__number_def number_mantissa_def number_exponent_def
        skip_digits.simps plain_def peek_def ctype_defs char_of_eq_iff take_bit_eq_mod Let_def)
  have a: "all_fail ?src 0"
    by (simp add: all_fail_def recognizers_def returns_zero_def c h x b o z g n)
  obtain ds where r: "parse_literal ?src 0 blank = Some ((0, blank), ds)"
    using parse_literal_failure_untouched [of ?src 0 blank] a by blast
  have "parse_literal ?src 0 blank = Some ((0, blank), [])"
    by (simp add: parse_literal_def attempt_def Let_def c h x b o z g n)
  then show ?thesis
    using a r by simp
qed

end
